theory Spec2Isabelle
  imports Complex_Main "HOL-Library.Multiset" "HOL-Library.Char_ord" "HOL-Library.List_Lexorder"
begin

section \<open>Strings\<close>

text \<open>
  Strings are byte strings (UTF-8), as SQLite stores and compares them. The three
  JavaScript string operations the server and the client use are written out:
  a literal prefix test, the search of a literal anywhere in a string
  (an unanchored regular expression made of literals), and \<open>toLowerCase\<close> on
  the ASCII letters (the only ones that can turn into a letter of the patterns
  \<open>jpeg\<close>, \<open>jpg\<close>, \<open>png\<close>, \<open>webp\<close>).
\<close>

fun starts_with :: "string \<Rightarrow> string \<Rightarrow> bool" where
  "starts_with [] s = True"
| "starts_with (p # ps) [] = False"
| "starts_with (p # ps) (c # cs) = (p = c \<and> starts_with ps cs)"

fun regex_search :: "string \<Rightarrow> string \<Rightarrow> bool" where
  "regex_search pat [] = starts_with pat []"
| "regex_search pat (c # cs) = (starts_with pat (c # cs) \<or> regex_search pat cs)"

definition lower_char :: "char \<Rightarrow> char" where
  "lower_char c =
     (case map_of (zip ''ABCDEFGHIJKLMNOPQRSTUVWXYZ'' ''abcdefghijklmnopqrstuvwxyz'') c of
        Some l \<Rightarrow> l
      | None \<Rightarrow> c)"

definition toLowerCase :: "string \<Rightarrow> string" where
  "toLowerCase s = map lower_char s"

text \<open>Decimal rendering of an integer, as JavaScript's number-to-string conversion
  gives for the integers \<open>Date.now()\<close> and \<open>Math.round(...)\<close> return.\<close>

definition digit_char :: "int \<Rightarrow> char" where
  "digit_char d = ''0123456789'' ! nat d"

function dec :: "int \<Rightarrow> string" where
  "dec n =
     (if n < 0 then CHR ''-'' # dec (- n)
      else if n < 10 then [digit_char n]
      else dec (n div 10) @ [digit_char (n mod 10)])"
  by pat_completeness auto
termination
  by (relation "measure (\<lambda>n. if n < 0 then nat (- n) + 1 else nat n)") auto

declare dec.simps [simp del]

section \<open>path.extname\<close>

text \<open>
  Node's \<open>path.extname\<close> (POSIX flavour), which the upload filter and the file-name
  generator call. It scans the path from its last character to its first and keeps
  five variables; the scan stops at the first separator that follows a character of
  the last path component. \<open>-1\<close> is the "not set" value of the three indices.
\<close>

record ext_scan =
  startDot :: int
  startPart :: int
  end_idx :: int
  matchedSlash :: bool
  preDotState :: int

definition ext_init :: ext_scan where
  "ext_init = \<lparr>startDot = -1, startPart = 0, end_idx = -1, matchedSlash = True, preDotState = 0\<rparr>"

definition ext_char :: "char \<Rightarrow> nat \<Rightarrow> ext_scan \<Rightarrow> ext_scan" where
  "ext_char code i s =
     (let s1 = (if end_idx s = -1 then s\<lparr>matchedSlash := False, end_idx := int i + 1\<rparr> else s)
      in if code = CHR ''.'' then
           (if startDot s1 = -1 then s1\<lparr>startDot := int i\<rparr>
            else if preDotState s1 \<noteq> 1 then s1\<lparr>preDotState := 1\<rparr> else s1)
         else if startDot s1 \<noteq> -1 then s1\<lparr>preDotState := -1\<rparr>
         else s1)"

text \<open>\<open>ext_loop path n s\<close> runs the loop body for the indices \<open>n - 1\<close> down to \<open>0\<close>.\<close>

primrec ext_loop :: "string \<Rightarrow> nat \<Rightarrow> ext_scan \<Rightarrow> ext_scan" where
  "ext_loop path 0 s = s"
| "ext_loop path (Suc i) s =
     (if path ! i = CHR ''/'' then
        (if \<not> matchedSlash s then s\<lparr>startPart := int i + 1\<rparr> else ext_loop path i s)
      else ext_loop path i (ext_char (path ! i) i s))"

definition extname :: "string \<Rightarrow> string" where
  "extname path =
     (let s = ext_loop path (length path) ext_init
      in if startDot s = -1 \<or> end_idx s = -1 \<or> preDotState s = 0
            \<or> (preDotState s = 1 \<and> startDot s = end_idx s - 1 \<and> startDot s = startPart s + 1)
         then []
         else drop (nat (startDot s)) (take (nat (end_idx s)) path))"

section \<open>The client: getEmbedUrl\<close>

text \<open>
  \<open>url.match(/(?:youtube\.com\/watch\?v=|youtu\.be\/)([^&]+)/)\<close>: the regular
  expression is tried at each position of the URL from the left. At one position it
  matches when one of the two literals stands there and is followed by at least one
  character other than \<open>&\<close>; the group captures the longest run of such characters.
\<close>

definition watch_literal :: string where
  "watch_literal = ''youtube.com/watch?v=''"

definition short_literal :: string where
  "short_literal = ''youtu.be/''"

definition capture :: "string \<Rightarrow> string" where
  "capture s = takeWhile (\<lambda>c. c \<noteq> CHR ''&'') s"

definition match_alt :: "string \<Rightarrow> string \<Rightarrow> string option" where
  "match_alt lit s =
     (if starts_with lit s \<and> capture (drop (length lit) s) \<noteq> []
      then Some (capture (drop (length lit) s)) else None)"

definition match_here :: "string \<Rightarrow> string option" where
  "match_here s =
     (case match_alt watch_literal s of
        Some v \<Rightarrow> Some v
      | None \<Rightarrow> match_alt short_literal s)"

fun url_match :: "string \<Rightarrow> string option" where
  "url_match [] = match_here []"
| "url_match (c # cs) =
     (case match_here (c # cs) of Some v \<Rightarrow> Some v | None \<Rightarrow> url_match cs)"

definition getEmbedUrl :: "string \<Rightarrow> string" where
  "getEmbedUrl url =
     (case url_match url of
        Some v \<Rightarrow>
          if v \<noteq> [] then ''https://www.youtube.com/embed/'' @ v @ ''?autoplay=1&rel=0''
          else url
      | None \<Rightarrow> url)"

section \<open>Values\<close>

text \<open>
  A JavaScript number, which is also SQLite's REAL: a double, by its exact value,
  or one of the two infinities. (NaN does not occur: no request body holds one, and
  SQLite stores none.)
\<close>

datatype dbl = NegInf | Fin rat | PosInf

fun dbl_less :: "dbl \<Rightarrow> dbl \<Rightarrow> bool" where
  "dbl_less NegInf NegInf = False"
| "dbl_less NegInf (Fin b) = True"
| "dbl_less NegInf PosInf = True"
| "dbl_less (Fin a) NegInf = False"
| "dbl_less (Fin a) (Fin b) = (a < b)"
| "dbl_less (Fin a) PosInf = True"
| "dbl_less PosInf b = False"

text \<open>
  The double nearest to a 64-bit integer, ties to the even mantissa, by its value
  (a double of that size is an integer): integers up to \<open>2^53\<close> in size are doubles
  themselves, a longer one keeps its 53 leading bits.
\<close>

function bit_length :: "int \<Rightarrow> nat" where
  "bit_length a = (if a \<le> 0 then 0 else Suc (bit_length (a div 2)))"
  by pat_completeness auto
termination
  by (relation "measure nat") auto

declare bit_length.simps [simp del]

definition double_of_int :: "int \<Rightarrow> int" where
  "double_of_int n =
     (let a = \<bar>n\<bar>
      in if a \<le> 2 ^ 53 then n
         else
           let k = bit_length a - 53;
               q = a div 2 ^ k;
               r = a mod 2 ^ k;
               h = 2 ^ (k - 1);
               m = (if h < r \<or> (r = h \<and> odd q) then q + 1 else q)
           in sgn n * (m * 2 ^ k))"

text \<open>
  A value of a request body, as \<open>express.json()\<close> and multer build them: multer
  gives strings, arrays for repeated or bracketed names and objects for names with
  keys; a JSON body gives every kind. A field that was not sent is \<open>undefined\<close>,
  which is \<open>None\<close> below.
\<close>

datatype jsval =
    JNull
  | JBool bool
  | JNum dbl
  | JStr string
  | JArr "jsval list"
  | JObj "(string \<times> jsval) list"

fun truthy :: "jsval \<Rightarrow> bool" where
  "truthy JNull = False"
| "truthy (JBool b) = b"
| "truthy (JNum d) = (d \<noteq> Fin 0)"
| "truthy (JStr s) = (s \<noteq> [])"
| "truthy (JArr vs) = True"
| "truthy (JObj kvs) = True"

text \<open>\<open>x || null\<close>\<close>

definition or_null :: "jsval option \<Rightarrow> jsval" where
  "or_null x = (case x of None \<Rightarrow> JNull | Some v \<Rightarrow> if truthy v then v else JNull)"

section \<open>The movies table\<close>

text \<open>
  A value of the \<open>year\<close> column: SQLite is dynamically typed, and the column holds
  NULL, an INTEGER, a REAL, or a TEXT that is no numeral. The text columns hold NULL
  (\<open>None\<close>) or a TEXT.
\<close>

datatype sqlval = SNull | SInt int | SReal dbl | SText string

record movie =
  movie_id :: int
  title :: string
  year :: sqlval
  poster_url :: "string option"
  poster_local :: "string option"
  dop :: "string option"
  bobo_crew :: "string option"
  imdb_url :: "string option"
  tmdb_url :: "string option"
  trailer_url :: "string option"
  production_company :: "string option"
  synopsis :: "string option"
  created_at :: int
  updated_at :: int

text \<open>A file of the uploads directory: \<open>fs.unlinkSync\<close> removes a \<open>Regular\<close> file and
  throws on a \<open>Locked\<close> one (EPERM, EACCES, EBUSY).\<close>

datatype fentry = Regular | Locked

text \<open>
  The server's state: the rows of \<open>movies\<close> in insertion order, the counter that
  \<open>AUTOINCREMENT\<close> keeps in \<open>sqlite_sequence\<close> (the largest id ever given out), and
  the files below the server's directory, by their path from it.
\<close>

record state =
  movies :: "movie list"
  seq :: int
  disk :: "string \<rightharpoonup> fentry"

definition empty_db :: state where
  "empty_db = \<lparr>movies = [], seq = 0, disk = Map.empty\<rparr>"

text \<open>What a handler can throw: the binder's refusal of the arguments of a statement
  (a TypeError or a RangeError), the two failures of the \<open>INSERT\<close> and the \<open>UPDATE\<close>,
  the failure of \<open>unlinkSync\<close>, and the two errors of multer.\<close>

datatype exn =
    BindError
  | NotNullTitle
  | DatabaseFull
  | UnlinkFailed
  | OnlyImageFiles
  | LimitFileSize

subsection \<open>Binding\<close>

text \<open>
  What better-sqlite3 hands to SQLite for one value: a number is bound as a double,
  a string as text, \<open>null\<close> and \<open>undefined\<close> as NULL; every other value is refused
  with a TypeError.
\<close>

datatype bound = BNull | BReal dbl | BText string

fun bind_value :: "jsval option \<Rightarrow> bound option" where
  "bind_value None = Some BNull"
| "bind_value (Some JNull) = Some BNull"
| "bind_value (Some (JNum d)) = Some (BReal d)"
| "bind_value (Some (JStr s)) = Some (BText s)"
| "bind_value (Some (JBool b)) = None"
| "bind_value (Some (JArr vs)) = None"
| "bind_value (Some (JObj kvs)) = None"

text \<open>
  The arguments of \<open>stmt.run\<close>, from the left: an argument that is an array binds
  each of its elements to the next parameters, a plain object binds the named
  parameters of the statement (the statements of this server have none) and may
  come once, any other argument binds itself to the next parameter. The statement
  runs when nothing was refused and as many values were bound as it has parameters.
\<close>

fun bind_array :: "jsval list \<Rightarrow> bound list option" where
  "bind_array [] = Some []"
| "bind_array (v # vs) =
     (case bind_value (Some v) of
        None \<Rightarrow> None
      | Some b \<Rightarrow> map_option ((#) b) (bind_array vs))"

fun bind_args :: "bool \<Rightarrow> jsval option list \<Rightarrow> bound list option" where
  "bind_args bound_object [] = Some []"
| "bind_args bound_object (Some (JArr vs) # args) =
     (case bind_array vs of
        None \<Rightarrow> None
      | Some bs \<Rightarrow> map_option ((@) bs) (bind_args bound_object args))"
| "bind_args bound_object (Some (JObj kvs) # args) =
     (if bound_object then None else bind_args True args)"
| "bind_args bound_object (arg # args) =
     (case bind_value arg of
        None \<Rightarrow> None
      | Some b \<Rightarrow> map_option ((#) b) (bind_args bound_object args))"

definition stmt_bind :: "nat \<Rightarrow> jsval option list \<Rightarrow> exn + bound list" where
  "stmt_bind param_count args =
     (case bind_args False args of
        None \<Rightarrow> Inl BindError
      | Some bs \<Rightarrow> if length bs = param_count then Inr bs else Inl BindError)"

subsection \<open>Column affinity and comparison\<close>

text \<open>
  Two conversions of SQLite are left open, since their results differ in the last
  digits between versions of SQLite, and every property below holds whatever they
  are: the number a text is read as when a column of numeric affinity stores it
  (\<open>None\<close> when the text is no well-formed numeral, and then the text is stored),
  and the text a REAL is rendered as when a column of TEXT affinity stores it.
\<close>

datatype num = NInt int | NReal dbl

record sqlite =
  numeric_text :: "string \<Rightarrow> num option"
  real_text :: "dbl \<Rightarrow> string"

definition max_rowid :: int where
  "max_rowid = 9223372036854775807"

text \<open>
  A REAL in a column of INTEGER affinity becomes the INTEGER it equals, when it
  equals one that is neither the smallest nor the largest 64-bit integer. A text in
  such a column is stored as the number it is read as (an INTEGER, or a REAL, which
  again becomes the INTEGER it equals), and as it is when it is no numeral.
\<close>

definition real_to_integer :: "dbl \<Rightarrow> sqlval" where
  "real_to_integer d =
     (case d of
        Fin q \<Rightarrow>
          if q = of_int \<lfloor>q\<rfloor> \<and> - max_rowid - 1 < \<lfloor>q\<rfloor> \<and> \<lfloor>q\<rfloor> < max_rowid then SInt \<lfloor>q\<rfloor>
          else SReal d
      | _ \<Rightarrow> SReal d)"

definition integer_affinity :: "sqlite \<Rightarrow> bound \<Rightarrow> sqlval" where
  "integer_affinity sq b =
     (case b of
        BNull \<Rightarrow> SNull
      | BReal d \<Rightarrow> real_to_integer d
      | BText s \<Rightarrow>
          (case numeric_text sq s of
             Some (NInt n) \<Rightarrow> SInt n
           | Some (NReal d) \<Rightarrow> real_to_integer d
           | None \<Rightarrow> SText s))"

definition text_affinity :: "sqlite \<Rightarrow> bound \<Rightarrow> string option" where
  "text_affinity sq b =
     (case b of
        BNull \<Rightarrow> None
      | BReal d \<Rightarrow> Some (real_text sq d)
      | BText s \<Rightarrow> Some s)"

text \<open>SQLite's order of values: NULL, then the numbers by value (an INTEGER and a
  REAL are compared exactly), then the texts byte by byte (the BINARY collation).\<close>

fun sql_less :: "sqlval \<Rightarrow> sqlval \<Rightarrow> bool" where
  "sql_less SNull SNull = False"
| "sql_less SNull (SInt b) = True"
| "sql_less SNull (SReal e) = True"
| "sql_less SNull (SText t) = True"
| "sql_less (SInt a) SNull = False"
| "sql_less (SInt a) (SInt b) = (a < b)"
| "sql_less (SInt a) (SReal e) = dbl_less (Fin (of_int a)) e"
| "sql_less (SInt a) (SText t) = True"
| "sql_less (SReal d) SNull = False"
| "sql_less (SReal d) (SInt b) = dbl_less d (Fin (of_int b))"
| "sql_less (SReal d) (SReal e) = dbl_less d e"
| "sql_less (SReal d) (SText t) = True"
| "sql_less (SText s) SNull = False"
| "sql_less (SText s) (SInt b) = False"
| "sql_less (SText s) (SReal e) = False"
| "sql_less (SText s) (SText t) = (s < t)"

definition sql_eq :: "sqlval \<Rightarrow> sqlval \<Rightarrow> bool" where
  "sql_eq a b = (\<not> sql_less a b \<and> \<not> sql_less b a)"

subsection \<open>The statements\<close>

text \<open>\<open>ORDER BY year DESC, title ASC\<close>: \<open>a\<close> may stand before \<open>b\<close>.\<close>

definition year_desc_title_asc :: "movie \<Rightarrow> movie \<Rightarrow> bool" where
  "year_desc_title_asc a b =
     (sql_less (year b) (year a) \<or> (sql_eq (year a) (year b) \<and> title a \<le> title b))"

fun insert_row :: "movie \<Rightarrow> movie list \<Rightarrow> movie list" where
  "insert_row m [] = [m]"
| "insert_row m (x # xs) =
     (if year_desc_title_asc m x then m # x # xs else x # insert_row m xs)"

definition order_by :: "movie list \<Rightarrow> movie list" where
  "order_by rows = foldr insert_row rows []"

text \<open>\<open>SELECT * FROM movies ORDER BY year DESC, title ASC\<close>\<close>

definition select_all :: "state \<Rightarrow> movie list" where
  "select_all st = order_by (movies st)"

text \<open>\<open>SELECT * FROM movies WHERE id = ?\<close>, for the integer the bound value denotes.\<close>

definition select_by_id :: "state \<Rightarrow> int \<Rightarrow> movie option" where
  "select_by_id st i = find (\<lambda>m. movie_id m = i) (movies st)"

text \<open>
  \<open>id INTEGER PRIMARY KEY AUTOINCREMENT\<close>: an insert that names no id gets one more
  than the largest id the table ever held, and fails when that one is the largest
  64-bit integer.
\<close>

definition largest_id :: "state \<Rightarrow> int" where
  "largest_id st = fold max (map movie_id (movies st)) (seq st)"

text \<open>
  The row a statement writes: every column it sets, \<open>id\<close> and the timestamps apart,
  as the columns hold the bound values. \<open>title TEXT NOT NULL\<close> refuses a NULL title.
\<close>

record new_row =
  n_title :: "string option"
  n_year :: sqlval
  n_poster_url :: "string option"
  n_poster_local :: "string option"
  n_dop :: "string option"
  n_bobo_crew :: "string option"
  n_imdb_url :: "string option"
  n_tmdb_url :: "string option"
  n_trailer_url :: "string option"
  n_production_company :: "string option"
  n_synopsis :: "string option"

text \<open>The eleven values of the two statements of the handlers, in the order of their
  parameters, under the affinities of their columns.\<close>

definition columns :: "sqlite \<Rightarrow> bound list \<Rightarrow> new_row" where
  "columns sq bs =
     \<lparr>n_title = text_affinity sq (bs ! 0),
      n_year = integer_affinity sq (bs ! 1),
      n_poster_url = text_affinity sq (bs ! 2),
      n_poster_local = text_affinity sq (bs ! 3),
      n_dop = text_affinity sq (bs ! 4),
      n_bobo_crew = text_affinity sq (bs ! 5),
      n_imdb_url = text_affinity sq (bs ! 6),
      n_tmdb_url = text_affinity sq (bs ! 7),
      n_trailer_url = text_affinity sq (bs ! 8),
      n_production_company = text_affinity sq (bs ! 9),
      n_synopsis = text_affinity sq (bs ! 10)\<rparr>"

definition insert_movie :: "state \<Rightarrow> int \<Rightarrow> new_row \<Rightarrow> exn + (state \<times> int)" where
  "insert_movie st now v =
     (case n_title v of
        None \<Rightarrow> Inl NotNullTitle
      | Some t \<Rightarrow>
          if largest_id st \<ge> max_rowid then Inl DatabaseFull
          else
            let i = largest_id st + 1;
                m = \<lparr>movie_id = i, title = t, year = n_year v, poster_url = n_poster_url v,
                     poster_local = n_poster_local v, dop = n_dop v, bobo_crew = n_bobo_crew v,
                     imdb_url = n_imdb_url v, tmdb_url = n_tmdb_url v,
                     trailer_url = n_trailer_url v,
                     production_company = n_production_company v, synopsis = n_synopsis v,
                     created_at = now, updated_at = now\<rparr>
            in Inr (st\<lparr>movies := movies st @ [m], seq := i\<rparr>, i))"

text \<open>\<open>UPDATE movies SET title = ?, ..., updated_at = CURRENT_TIMESTAMP WHERE id = ?\<close>\<close>

definition set_row :: "int \<Rightarrow> string \<Rightarrow> new_row \<Rightarrow> movie \<Rightarrow> movie" where
  "set_row now t v m =
     m\<lparr>title := t, year := n_year v, poster_url := n_poster_url v,
       poster_local := n_poster_local v, dop := n_dop v, bobo_crew := n_bobo_crew v,
       imdb_url := n_imdb_url v, tmdb_url := n_tmdb_url v, trailer_url := n_trailer_url v,
       production_company := n_production_company v, synopsis := n_synopsis v,
       updated_at := now\<rparr>"

definition update_movie :: "state \<Rightarrow> int \<Rightarrow> new_row \<Rightarrow> int \<Rightarrow> exn + state" where
  "update_movie st now v i =
     (case n_title v of
        None \<Rightarrow> if select_by_id st i = None then Inr st else Inl NotNullTitle
      | Some t \<Rightarrow>
          Inr (st\<lparr>movies := map (\<lambda>m. if movie_id m = i then set_row now t v m else m) (movies st)\<rparr>))"

text \<open>
  \<open>stmt.run\<close> of the \<open>INSERT\<close> and of the \<open>UPDATE\<close> with the arguments the handlers
  give: the values are bound first, then the statement runs. (The \<open>UPDATE\<close> has a
  twelfth parameter, the id of the route, which the handler gives last.)
\<close>

definition run_insert :: "sqlite \<Rightarrow> state \<Rightarrow> int \<Rightarrow> jsval option list \<Rightarrow> exn + (state \<times> int)" where
  "run_insert sq st now args =
     (case stmt_bind 11 args of
        Inl e \<Rightarrow> Inl e
      | Inr bs \<Rightarrow> insert_movie st now (columns sq bs))"

definition run_update :: "sqlite \<Rightarrow> state \<Rightarrow> int \<Rightarrow> jsval option list \<Rightarrow> int \<Rightarrow> exn + state" where
  "run_update sq st now args i =
     (case stmt_bind 11 args of
        Inl e \<Rightarrow> Inl e
      | Inr bs \<Rightarrow> update_movie st now (columns sq bs) i)"

text \<open>\<open>DELETE FROM movies WHERE id = ?\<close>\<close>

definition delete_movie :: "state \<Rightarrow> int \<Rightarrow> state" where
  "delete_movie st i = st\<lparr>movies := filter (\<lambda>m. movie_id m \<noteq> i) (movies st)\<rparr>"

subsection \<open>The file system\<close>

definition existsSync :: "state \<Rightarrow> string \<Rightarrow> bool" where
  "existsSync st p = (disk st p \<noteq> None)"

definition unlinkSync :: "state \<Rightarrow> string \<Rightarrow> exn + state" where
  "unlinkSync st p =
     (case disk st p of
        Some Regular \<Rightarrow> Inr (st\<lparr>disk := (disk st)(p := None)\<rparr>)
      | _ \<Rightarrow> Inl UnlinkFailed)"

section \<open>The server\<close>

subsection \<open>Requests and responses\<close>

text \<open>
  A request as the handlers read it: \<open>req.body\<close> maps the names of the fields to
  their values (a field that was not sent is absent), \<open>poster\<close> is the file part of
  that name, and the three readings of the environment a request makes are
  \<open>Date.now()\<close>, \<open>Math.round(Math.random() * 1E9)\<close> and SQLite's
  \<open>CURRENT_TIMESTAMP\<close>.
\<close>

record upload =
  originalname :: string
  mimetype :: string
  size_bytes :: int

record request =
  body :: "string \<rightharpoonup> jsval"
  poster :: "upload option"
  date_now :: int
  random_1e9 :: int
  current_timestamp :: int

text \<open>
  A row as \<open>res.json\<close> sends it. better-sqlite3 gives every INTEGER and REAL as a
  JavaScript number, so an INTEGER comes as the double nearest to it, and
  \<open>JSON.stringify\<close> writes an infinite number as \<open>null\<close>.
\<close>

record movie_json =
  j_id :: int
  j_title :: string
  j_year :: jsval
  j_poster_url :: "string option"
  j_poster_local :: "string option"
  j_dop :: "string option"
  j_bobo_crew :: "string option"
  j_imdb_url :: "string option"
  j_tmdb_url :: "string option"
  j_trailer_url :: "string option"
  j_production_company :: "string option"
  j_synopsis :: "string option"
  j_created_at :: int
  j_updated_at :: int

definition year_json :: "sqlval \<Rightarrow> jsval" where
  "year_json y =
     (case y of
        SNull \<Rightarrow> JNull
      | SInt n \<Rightarrow> JNum (Fin (of_int (double_of_int n)))
      | SReal (Fin q) \<Rightarrow> JNum (Fin q)
      | SReal _ \<Rightarrow> JNull
      | SText s \<Rightarrow> JStr s)"

definition to_json :: "movie \<Rightarrow> movie_json" where
  "to_json m =
     \<lparr>j_id = double_of_int (movie_id m), j_title = title m, j_year = year_json (year m),
      j_poster_url = poster_url m, j_poster_local = poster_local m, j_dop = dop m,
      j_bobo_crew = bobo_crew m, j_imdb_url = imdb_url m, j_tmdb_url = tmdb_url m,
      j_trailer_url = trailer_url m, j_production_company = production_company m,
      j_synopsis = synopsis m, j_created_at = created_at m, j_updated_at = updated_at m\<rparr>"

text \<open>
  The body of a response: the JSON the handlers send, and the page of Express's own
  error handler, which answers with status 500 when a middleware passes on an error
  that carries no status (the routes install no error handler of their own).
\<close>

datatype payload =
    JsonMovies "movie_json list"
  | JsonMovie movie_json
  | JsonNothing
  | JsonNotFound
  | JsonError exn
  | JsonDeleted
  | ErrorPage exn

record response =
  status :: nat
  payload :: payload

subsection \<open>multer\<close>

text \<open>\<open>/jpeg|jpg|png|webp/.test(s)\<close>\<close>

definition allowedTypes :: "string \<Rightarrow> bool" where
  "allowedTypes s =
     (regex_search ''jpeg'' s \<or> regex_search ''jpg'' s \<or> regex_search ''png'' s
      \<or> regex_search ''webp'' s)"

definition fileFilter :: "upload \<Rightarrow> bool" where
  "fileFilter f =
     (let extname_ok = allowedTypes (toLowerCase (extname (originalname f)));
          mimetype_ok = allowedTypes (mimetype f)
      in extname_ok \<and> mimetype_ok)"

definition fileSize :: int where
  "fileSize = 5 * 1024 * 1024"

definition filename :: "request \<Rightarrow> upload \<Rightarrow> string" where
  "filename r f =
     (let uniqueSuffix = dec (date_now r) @ ''-'' @ dec (random_1e9 r)
      in uniqueSuffix @ extname (originalname f))"

definition poster_path :: "string \<Rightarrow> string" where
  "poster_path fn = ''/uploads/posters/'' @ fn"

text \<open>
  \<open>upload.single('poster')\<close>: without a file part the handler runs with no
  \<open>req.file\<close>. A file the filter refuses is not stored; a file longer than the limit
  is not kept. Both pass an error on, so the handler does not run. An accepted file
  is on disk under its generated name before the handler runs.
\<close>

definition upload_single :: "state \<Rightarrow> request \<Rightarrow> exn + (state \<times> string option)" where
  "upload_single st r =
     (case poster r of
        None \<Rightarrow> Inr (st, None)
      | Some f \<Rightarrow>
          if \<not> fileFilter f then Inl OnlyImageFiles
          else if size_bytes f > fileSize then Inl LimitFileSize
          else Inr (st\<lparr>disk := (disk st)(poster_path (filename r f) \<mapsto> Regular)\<rparr>,
                    Some (filename r f)))"

subsection \<open>The handlers\<close>

text \<open>
  The first eleven arguments of both \<open>stmt.run\<close> calls: \<open>title\<close> as it is in the
  body, \<open>poster_local\<close> as the handler computed it (a path or \<open>null\<close>), and \<open>x || null\<close>
  for the nine other fields.
\<close>

definition run_args :: "request \<Rightarrow> string option \<Rightarrow> jsval option list" where
  "run_args r path =
     [body r ''title'',
      Some (or_null (body r ''year'')),
      Some (or_null (body r ''poster_url'')),
      Some (case path of None \<Rightarrow> JNull | Some p \<Rightarrow> JStr p),
      Some (or_null (body r ''dop'')),
      Some (or_null (body r ''bobo_crew'')),
      Some (or_null (body r ''imdb_url'')),
      Some (or_null (body r ''tmdb_url'')),
      Some (or_null (body r ''trailer_url'')),
      Some (or_null (body r ''production_company'')),
      Some (or_null (body r ''synopsis''))]"

text \<open>\<open>res.json(row)\<close> for the result of a \<open>get\<close>, which is \<open>undefined\<close> when no row
  has the id.\<close>

definition json_row :: "movie option \<Rightarrow> payload" where
  "json_row x = (case x of Some m \<Rightarrow> JsonMovie (to_json m) | None \<Rightarrow> JsonNothing)"

text \<open>\<open>GET /api/movies\<close>\<close>

definition get_movies :: "state \<Rightarrow> state \<times> response" where
  "get_movies st = (st, \<lparr>status = 200, payload = JsonMovies (map to_json (select_all st))\<rparr>)"

text \<open>\<open>GET /api/movies/:id\<close>\<close>

definition get_movie :: "state \<Rightarrow> int \<Rightarrow> state \<times> response" where
  "get_movie st i =
     (case select_by_id st i of
        None \<Rightarrow> (st, \<lparr>status = 404, payload = JsonNotFound\<rparr>)
      | Some m \<Rightarrow> (st, \<lparr>status = 200, payload = JsonMovie (to_json m)\<rparr>))"

text \<open>
  \<open>POST /api/movies\<close>: the handler, then the route with its middleware.
  \<open>result.lastInsertRowid\<close> is a JavaScript number, the double nearest to the new id,
  and the row is read again by that number.
\<close>

definition post_handler :: "sqlite \<Rightarrow> state \<Rightarrow> request \<Rightarrow> string option \<Rightarrow> state \<times> response" where
  "post_handler sq st r file =
     (let poster_local = map_option poster_path file
      in case run_insert sq st (current_timestamp r) (run_args r poster_local) of
           Inl e \<Rightarrow> (st, \<lparr>status = 500, payload = JsonError e\<rparr>)
         | Inr (st', rowid) \<Rightarrow>
             let lastInsertRowid = double_of_int rowid
             in (st', \<lparr>status = 201, payload = json_row (select_by_id st' lastInsertRowid)\<rparr>))"

definition post_movies :: "sqlite \<Rightarrow> state \<Rightarrow> request \<Rightarrow> state \<times> response" where
  "post_movies sq st r =
     (case upload_single st r of
        Inl e \<Rightarrow> (st, \<lparr>status = 500, payload = ErrorPage e\<rparr>)
      | Inr (st1, file) \<Rightarrow> post_handler sq st1 r file)"

text \<open>
  The removal of a row's poster file, as the update and the delete handler both
  write it: nothing to do for a row without a local poster or for a file that is
  not there.
\<close>

definition remove_poster :: "state \<Rightarrow> movie \<Rightarrow> exn + state" where
  "remove_poster st m =
     (case poster_local m of
        None \<Rightarrow> Inr st
      | Some p \<Rightarrow> if p \<noteq> [] \<and> existsSync st p then unlinkSync st p else Inr st)"

text \<open>
  \<open>PUT /api/movies/:id\<close>. The handler is given with the states it goes through,
  oldest first: the state it starts in (the uploaded file is stored already), the
  state after the old poster's removal, the state after the \<open>UPDATE\<close>.
\<close>

definition put_handler ::
  "sqlite \<Rightarrow> state \<Rightarrow> int \<Rightarrow> request \<Rightarrow> string option \<Rightarrow> state list \<times> response" where
  "put_handler sq st i r file =
     (case select_by_id st i of
        None \<Rightarrow> ([st], \<lparr>status = 404, payload = JsonNotFound\<rparr>)
      | Some existingMovie \<Rightarrow>
          (case (if file \<noteq> None then remove_poster st existingMovie else Inr st) of
             Inl e \<Rightarrow> ([st], \<lparr>status = 500, payload = JsonError e\<rparr>)
           | Inr st2 \<Rightarrow>
               let poster_local =
                     (case file of
                        Some fn \<Rightarrow> Some (poster_path fn)
                      | None \<Rightarrow> poster_local existingMovie)
               in case run_update sq st2 (current_timestamp r) (run_args r poster_local) i of
                    Inl e \<Rightarrow> ([st, st2], \<lparr>status = 500, payload = JsonError e\<rparr>)
                  | Inr st3 \<Rightarrow>
                      ([st, st2, st3],
                       \<lparr>status = 200, payload = json_row (select_by_id st3 i)\<rparr>)))"

definition put_trace :: "sqlite \<Rightarrow> state \<Rightarrow> int \<Rightarrow> request \<Rightarrow> state list \<times> response" where
  "put_trace sq st i r =
     (case upload_single st r of
        Inl e \<Rightarrow> ([st], \<lparr>status = 500, payload = ErrorPage e\<rparr>)
      | Inr (st1, file) \<Rightarrow>
          (case put_handler sq st1 i r file of (tr, resp) \<Rightarrow> (st # tr, resp)))"

definition put_movies :: "sqlite \<Rightarrow> state \<Rightarrow> int \<Rightarrow> request \<Rightarrow> state \<times> response" where
  "put_movies sq st i r = (case put_trace sq st i r of (tr, resp) \<Rightarrow> (last tr, resp))"

text \<open>\<open>DELETE /api/movies/:id\<close>\<close>

definition delete_movies :: "state \<Rightarrow> int \<Rightarrow> state \<times> response" where
  "delete_movies st i =
     (case select_by_id st i of
        None \<Rightarrow> (st, \<lparr>status = 404, payload = JsonNotFound\<rparr>)
      | Some movie \<Rightarrow>
          (case remove_poster st movie of
             Inl e \<Rightarrow> (st, \<lparr>status = 500, payload = JsonError e\<rparr>)
           | Inr st1 \<Rightarrow> (delete_movie st1 i, \<lparr>status = 200, payload = JsonDeleted\<rparr>)))"

subsection \<open>Start-up and the seed\<close>

text \<open>
  A seed movie as its \<open>INSERT\<close> stores it: the seven values are strings and, for the
  year, a number, which the \<open>year\<close> column stores as the INTEGER it equals; the
  columns the statement does not name are NULL.
\<close>

definition seed_row ::
  "string \<Rightarrow> int \<Rightarrow> string \<Rightarrow> string \<Rightarrow> string \<Rightarrow> string \<Rightarrow> string \<Rightarrow> new_row" where
  "seed_row t y pu d bc tr pc =
     \<lparr>n_title = Some t, n_year = real_to_integer (Fin (of_int y)), n_poster_url = Some pu,
      n_poster_local = None, n_dop = Some d, n_bobo_crew = Some bc, n_imdb_url = None,
      n_tmdb_url = None, n_trailer_url = Some tr, n_production_company = Some pc,
      n_synopsis = None\<rparr>"

definition seedMovies :: "new_row list" where
  "seedMovies =
     [seed_row ''Tuntematon Sotilas'' 2017
        ''https://image.tmdb.org/t/p/w500/vOipe2myi26UNfY1ufV8Ywlwqbe.jpg''
        ''Mika Orasmaa'' ''Matti Kuusniemi (DIT)''
        ''https://www.youtube.com/watch?v=4dAaLbsQSzI''
        (''Elokuvaosakeyhti'' @ [CHR 0xC3, CHR 0xB6] @ '' Suomi 2017''),
      seed_row ''Hevi Reissu'' 2018
        ''https://image.tmdb.org/t/p/w500/xJnbMTrJ2fl1AXAKx34qu8yMDnv.jpg''
        ''Tuomo Hutri'' ''Matti Kuusniemi (DIT)''
        ''https://www.youtube.com/watch?v=VZjGnwMPGXg''
        ''Making Movies'',
      seed_row ''Laugh or Die'' 2018
        ''https://image.tmdb.org/t/p/w500/7KdmKMcMwrMXvPXoK0N7mM9sNNw.jpg''
        ''Rauno Ronkainen'' ''Matti Kuusniemi (DIT)''
        ''https://www.youtube.com/watch?v=4b7gF04CpHQ''
        ''Helsinki-filmi'',
      seed_row ''Oma maa'' 2018
        ''https://image.tmdb.org/t/p/w500/7RaFtzxtaiO21vyVkGfxlbPVPV0.jpg''
        ''Rauno Ronkainen'' ''Matti Kuusniemi (DIT)''
        ''https://www.youtube.com/watch?v=G_2T6l_Rnx0''
        (''Elokuvaosakeyhti'' @ [CHR 0xC3, CHR 0xB6] @ '' Aamu''),
      seed_row ''Veljeni Vartija'' 2018
        ''https://image.tmdb.org/t/p/w500/bQS43HSLZzMjZkcHJz4fGc7fNdz.jpg''
        ''Tuomo Hutri'' ''Matti Kuusniemi (DIT)''
        ''https://www.youtube.com/watch?v=cMTAUr3Nm6I''
        ''Solar Films'',
      seed_row ''Tuntematon mestari'' 2018
        ''https://image.tmdb.org/t/p/w500/8PWFBT8K8YnFtyqaAM3GbdzYoMV.jpg''
        ''Peter Flinckenberg'' ''Matti Kuusniemi (DIT)''
        ''https://www.youtube.com/watch?v=_jBLyJQHR3Q''
        ''Inland Film Company'',
      seed_row ''Ihmisen osa'' 2018
        ''https://image.tmdb.org/t/p/w500/iLmYX6gK3rXhNl8TWYjrCxsUKlx.jpg''
        ''Pietari Peltola'' ''Matti Kuusniemi (DIT)''
        ''https://www.youtube.com/watch?v=eFynkQl9Gek''
        ''Bufo'',
      seed_row ''Joulumaa'' 2017
        ''https://image.tmdb.org/t/p/w500/ueAXbqFzSmqqJ1l4PxRkiKxLNVH.jpg''
        ''Hannu-Pekka Vitikainen'' ''Matti Kuusniemi (DIT)''
        ''https://www.youtube.com/watch?v=E3A3Q1PC7Ok''
        ''Solar Films'']"

text \<open>The seeding loop: an insert that throws ends the start-up; the rows inserted
  before it stay.\<close>

fun seed_loop :: "state \<Rightarrow> int \<Rightarrow> new_row list \<Rightarrow> state" where
  "seed_loop st now [] = st"
| "seed_loop st now (v # vs) =
     (case insert_movie st now v of
        Inl e \<Rightarrow> st
      | Inr (st', i) \<Rightarrow> seed_loop st' now vs)"

definition startup :: "state \<Rightarrow> int \<Rightarrow> state" where
  "startup st now = (if length (movies st) = 0 then seed_loop st now seedMovies else st)"

subsection \<open>Runs of the server\<close>

datatype op =
    Startup int
  | GetAll
  | GetOne int
  | Post request
  | Put int request
  | Delete int

fun step :: "sqlite \<Rightarrow> state \<Rightarrow> op \<Rightarrow> state" where
  "step sq st (Startup now) = startup st now"
| "step sq st GetAll = fst (get_movies st)"
| "step sq st (GetOne i) = fst (get_movie st i)"
| "step sq st (Post r) = fst (post_movies sq st r)"
| "step sq st (Put i r) = fst (put_movies sq st i r)"
| "step sq st (Delete i) = fst (delete_movies st i)"

text \<open>The ids a step gives out: those of the rows that are in the table after it and
  were not before it.\<close>

definition ids :: "state \<Rightarrow> int list" where
  "ids st = map movie_id (movies st)"

definition new_ids :: "state \<Rightarrow> state \<Rightarrow> int list" where
  "new_ids st st' = filter (\<lambda>i. i \<notin> set (ids st)) (ids st')"

text \<open>All ids given out along a run, in the order they were given out.\<close>

fun assigned :: "sqlite \<Rightarrow> state \<Rightarrow> op list \<Rightarrow> int list" where
  "assigned sq st [] = []"
| "assigned sq st (x # xs) = new_ids st (step sq st x) @ assigned sq (step sq st x) xs"

section \<open>Notions the properties are stated with\<close>

text \<open>
  \<open>video_id_in url pre v\<close>: after the prefix \<open>pre\<close>, the URL goes on as a watch URL
  (\<open>youtube.com/watch?v=ID\<close>) or as a short link (\<open>youtu.be/ID\<close>) with the
  identifier \<open>v\<close>: a non-empty run of characters other than \<open>&\<close> that ends at the
  next \<open>&\<close> or at the end of the URL.
\<close>

definition video_id_in :: "string \<Rightarrow> string \<Rightarrow> string \<Rightarrow> bool" where
  "video_id_in url pre v \<longleftrightarrow>
     (\<exists>rest. (url = pre @ ''youtube.com/watch?v='' @ v @ rest \<or> url = pre @ ''youtu.be/'' @ v @ rest)
        \<and> v \<noteq> [] \<and> CHR ''&'' \<notin> set v \<and> (rest = [] \<or> hd rest = CHR ''&''))"

text \<open>The two choices of the update handler: whether the old poster file is removed,
  and which path the row gets.\<close>

definition removal :: "state \<Rightarrow> movie \<Rightarrow> string option \<Rightarrow> exn + state" where
  "removal st m fl = (if fl \<noteq> None then remove_poster st m else Inr st)"

definition kept_or_new :: "movie \<Rightarrow> string option \<Rightarrow> string option" where
  "kept_or_new m fl = (case fl of Some fn \<Rightarrow> Some (poster_path fn) | None \<Rightarrow> poster_local m)"

text \<open>\<open>ids_below\<close>: no row has an id above the counter. \<open>grows st st'\<close>: the rows of
  \<open>st'\<close> are rows of \<open>st\<close> followed by rows with increasing ids above the counter of
  \<open>st\<close>.\<close>

definition ids_below :: "state \<Rightarrow> bool" where
  "ids_below st \<longleftrightarrow> (\<forall>i \<in> set (ids st). i \<le> seq st)"

definition grows :: "state \<Rightarrow> state \<Rightarrow> bool" where
  "grows st st' \<longleftrightarrow>
     (\<exists>kept new. ids st' = kept @ new \<and> set kept \<subseteq> set (ids st) \<and> sorted_wrt (<) new
        \<and> (\<forall>i \<in> set new. seq st < i \<and> i \<le> seq st'))
     \<and> seq st \<le> seq st' \<and> ids_below st'"

text \<open>
  The columns of a row by their names, as values; \<open>new_movie\<close> is the row an
  \<open>INSERT\<close> adds.
\<close>

definition text_val :: "string option \<Rightarrow> sqlval" where
  "text_val x = (case x of None \<Rightarrow> SNull | Some s \<Rightarrow> SText s)"

definition optional_fields :: "string list" where
  "optional_fields =
     [''year'', ''poster_url'', ''dop'', ''bobo_crew'', ''imdb_url'', ''tmdb_url'',
      ''trailer_url'', ''production_company'', ''synopsis'']"

definition column :: "string \<Rightarrow> movie \<Rightarrow> sqlval" where
  "column f m =
     (if f = ''title'' then SText (title m)
      else if f = ''year'' then year m
      else if f = ''poster_url'' then text_val (poster_url m)
      else if f = ''poster_local'' then text_val (poster_local m)
      else if f = ''dop'' then text_val (dop m)
      else if f = ''bobo_crew'' then text_val (bobo_crew m)
      else if f = ''imdb_url'' then text_val (imdb_url m)
      else if f = ''tmdb_url'' then text_val (tmdb_url m)
      else if f = ''trailer_url'' then text_val (trailer_url m)
      else if f = ''production_company'' then text_val (production_company m)
      else if f = ''synopsis'' then text_val (synopsis m)
      else SNull)"

definition new_movie :: "int \<Rightarrow> int \<Rightarrow> string \<Rightarrow> new_row \<Rightarrow> movie" where
  "new_movie i now t v =
     \<lparr>movie_id = i, title = t, year = n_year v, poster_url = n_poster_url v,
      poster_local = n_poster_local v, dop = n_dop v, bobo_crew = n_bobo_crew v,
      imdb_url = n_imdb_url v, tmdb_url = n_tmdb_url v, trailer_url = n_trailer_url v,
      production_company = n_production_company v, synopsis = n_synopsis v,
      created_at = now, updated_at = now\<rparr>"



text \<open>
  \<open>scalar_fields r\<close>: none of the ten fields of the body is an array or an object,
  as it is when every field was sent at most once under its plain name.
\<close>

definition scalar :: "jsval option \<Rightarrow> bool" where
  "scalar x = (case x of Some (JArr vs) \<Rightarrow> False | Some (JObj kvs) \<Rightarrow> False | _ \<Rightarrow> True)"

definition scalar_fields :: "request \<Rightarrow> bool" where
  "scalar_fields r = list_all (\<lambda>f. scalar (body r f)) (''title'' # optional_fields)"

text \<open>\<open>text_fields r\<close>: each of the ten fields of the body is a string or was not sent, as
  in a form that has every name at most once.\<close>

definition string_or_absent :: "jsval option \<Rightarrow> bool" where
  "string_or_absent x = (case x of None \<Rightarrow> True | Some (JStr s) \<Rightarrow> True | _ \<Rightarrow> False)"

definition text_fields :: "request \<Rightarrow> bool" where
  "text_fields r = list_all (\<lambda>f. string_or_absent (body r f)) (''title'' # optional_fields)"

text \<open>
  The comparison of two years as the caller of the listing sees them, a missing year
  (\<open>null\<close>) being lower than every number; and the stored years that reach the
  caller with their value: NULL, an INTEGER that is a double, a finite REAL.
\<close>

fun js_less :: "jsval \<Rightarrow> jsval \<Rightarrow> bool" where
  "js_less JNull (JNum b) = True"
| "js_less (JNum a) (JNum b) = dbl_less a b"
| "js_less a b = False"

definition exact_year :: "sqlval \<Rightarrow> bool" where
  "exact_year y =
     (case y of
        SNull \<Rightarrow> True
      | SInt n \<Rightarrow> \<bar>n\<bar> \<le> 2 ^ 53
      | SReal (Fin q) \<Rightarrow> True
      | _ \<Rightarrow> False)"

section \<open>Example requests and stores\<close>

text \<open>
  A request without a file: a JSON body, from its members, and a form, from its text
  parts. The stores of the examples are given by the requests that build them, for
  whatever the conversions \<open>sq\<close> of SQLite are: no example stores a text in \<open>year\<close> or
  a number in a TEXT column.
\<close>

definition json :: "(string \<times> jsval) list \<Rightarrow> request" where
  "json kvs = \<lparr>body = map_of kvs, poster = None, date_now = 0, random_1e9 = 0, current_timestamp = 0\<rparr>"

definition form :: "(string \<times> string) list \<Rightarrow> request" where
  "form kvs = json (map (\<lambda>(k, v). (k, JStr v)) kvs)"

text \<open>The store after three creations: years 2018 and 2020, and one movie without a
  year.\<close>

definition three_movies :: "sqlite \<Rightarrow> state" where
  "three_movies sq =
     fold (\<lambda>r st. fst (post_movies sq st r))
       [json [(''title'', JStr ''A''), (''year'', JNum (Fin 2018))],
        json [(''title'', JStr ''B''), (''year'', JNum (Fin 2020))],
        form [(''title'', ''C'')]]
       empty_db"

text \<open>
  A store with two movies whose years are the INTEGERs \<open>2^53 + 1\<close> and \<open>2^53\<close> (a form
  sends them as the texts \<open>9007199254740993\<close> and \<open>9007199254740992\<close>).
\<close>

definition long_year :: "int \<Rightarrow> string \<Rightarrow> int \<Rightarrow> movie" where
  "long_year i t y =
     \<lparr>movie_id = i, title = t, year = SInt y, poster_url = None, poster_local = None,
      dop = None, bobo_crew = None, imdb_url = None, tmdb_url = None, trailer_url = None,
      production_company = None, synopsis = None, created_at = 0, updated_at = 0\<rparr>"

definition long_years :: state where
  "long_years =
     \<lparr>movies = [long_year 1 ''z'' 9007199254740993, long_year 2 ''a'' 9007199254740992],
      seq = 2, disk = Map.empty\<rparr>"

text \<open>A run with two restarts of the numbering put to the test: the seed, deletions
  of the newest rows, and creations after them.\<close>

definition restart_run :: "op list" where
  "restart_run =
     [Startup 0, Delete 8, Delete 7, Post (form [(''title'', ''A'')]), Delete 9,
      Post (form [(''title'', ''B'')])]"

text \<open>An upload the filter and the limit accept, a request with a file, and the
  store after the creation of one movie with a poster.\<close>

definition png :: upload where
  "png = \<lparr>originalname = ''poster.png'', mimetype = ''image/png'', size_bytes = 1000\<rparr>"

definition with_file :: "request \<Rightarrow> upload \<Rightarrow> int \<Rightarrow> int \<Rightarrow> request" where
  "with_file r u now rnd = r\<lparr>poster := Some u, date_now := now, random_1e9 := rnd\<rparr>"

definition one_movie :: "sqlite \<Rightarrow> state" where
  "one_movie sq =
     fst (post_movies sq empty_db (with_file (form [(''title'', ''A''), (''dop'', ''X'')]) png 1 2))"

text \<open>An image one byte longer than the limit.\<close>

definition too_large :: upload where
  "too_large = \<lparr>originalname = ''poster.png'', mimetype = ''image/png'', size_bytes = 5242881\<rparr>"



text \<open>An upload whose extension is \<open>pngx\<close>, sent as \<open>image/png\<close>.\<close>

definition pngx :: upload where
  "pngx = \<lparr>originalname = ''poster.pngx'', mimetype = ''image/png'', size_bytes = 1000\<rparr>"

section \<open>Verified properties\<close>

subsection \<open>getEmbedUrl\<close>

lemma starts_with_iff: "starts_with p s \<longleftrightarrow> (\<exists>r. s = p @ r)"
  by (induction p s rule: starts_with.induct) auto

lemma capture_append:
  "CHR ''&'' \<notin> set v \<Longrightarrow> rest = [] \<or> hd rest = CHR ''&'' \<Longrightarrow> capture (v @ rest) = v"
  by (induction v) (cases rest; auto simp: capture_def)+

lemma capture_split:
  "\<exists>rest. s = capture s @ rest \<and> CHR ''&'' \<notin> set (capture s) \<and> (rest = [] \<or> hd rest = CHR ''&'')"
proof -
  let ?P = "\<lambda>c. c \<noteq> CHR ''&''"
  have "s = capture s @ dropWhile ?P s" by (simp add: capture_def)
  moreover have "CHR ''&'' \<notin> set (capture s)"
    unfolding capture_def by (auto dest: set_takeWhileD)
  moreover have "dropWhile ?P s = [] \<or> hd (dropWhile ?P s) = CHR ''&''"
    using hd_dropWhile [of ?P s] by auto
  ultimately show ?thesis by blast
qed

lemma match_alt_Some:
  "match_alt lit s = Some v \<longleftrightarrow>
     (\<exists>rest. s = lit @ v @ rest \<and> v \<noteq> [] \<and> CHR ''&'' \<notin> set v \<and> (rest = [] \<or> hd rest = CHR ''&''))"
proof
  assume "match_alt lit s = Some v"
  then have sw: "starts_with lit s" and v: "v = capture (drop (length lit) s)" and ne: "v \<noteq> []"
    by (auto simp: match_alt_def split: if_splits)
  from sw obtain r where r: "s = lit @ r" by (auto simp: starts_with_iff)
  with v have "v = capture r" by simp
  with capture_split [of r] r ne show "\<exists>rest. s = lit @ v @ rest \<and> v \<noteq> [] \<and> CHR ''&'' \<notin> set v \<and> (rest = [] \<or> hd rest = CHR ''&'')"
    by auto
next
  assume "\<exists>rest. s = lit @ v @ rest \<and> v \<noteq> [] \<and> CHR ''&'' \<notin> set v \<and> (rest = [] \<or> hd rest = CHR ''&'')"
  then obtain rest where s: "s = lit @ v @ rest" and ne: "v \<noteq> []" and a: "CHR ''&'' \<notin> set v"
    and r: "rest = [] \<or> hd rest = CHR ''&''" by blast
  have "starts_with lit s" using s by (auto simp: starts_with_iff)
  moreover have "capture (drop (length lit) s) = v" using s capture_append [OF a r] by simp
  ultimately show "match_alt lit s = Some v" using ne by (simp add: match_alt_def)
qed

lemma literals_apart: "\<not> (starts_with watch_literal s \<and> starts_with short_literal s)"
  by (auto simp: starts_with_iff watch_literal_def short_literal_def)

lemma match_here_Some: "match_here s = Some v \<longleftrightarrow> video_id_in s [] v"
proof -
  have "match_alt watch_literal s = None" if "match_alt short_literal s = Some v"
    using that literals_apart [of s] by (auto simp: match_alt_def split: if_splits)
  then have "match_here s = Some v \<longleftrightarrow> match_alt watch_literal s = Some v \<or> match_alt short_literal s = Some v"
    by (auto simp: match_here_def split: option.splits)
  then show ?thesis
    unfolding match_alt_Some video_id_in_def watch_literal_def short_literal_def by auto
qed

lemma video_id_in_Cons: "video_id_in (c # cs) (c' # pre) v \<longleftrightarrow> c' = c \<and> video_id_in cs pre v"
  by (auto simp: video_id_in_def)

lemma video_id_in_Nil: "\<not> video_id_in [] pre v"
  by (auto simp: video_id_in_def)

lemma url_match_Some:
  "url_match url = Some v \<Longrightarrow>
     \<exists>pre. video_id_in url pre v \<and> (\<forall>pre' v'. video_id_in url pre' v' \<longrightarrow> length pre \<le> length pre')"
proof (induction url)
  case Nil
  then show ?case by (simp add: match_here_Some video_id_in_Nil)
next
  case (Cons c cs)
  show ?case
  proof (cases "match_here (c # cs)")
    case (Some w)
    with Cons.prems have "w = v" by simp
    with Some have "video_id_in (c # cs) [] v" by (simp add: match_here_Some)
    then show ?thesis by (intro exI [of _ "[]"]) simp
  next
    case None
    with Cons.prems have "url_match cs = Some v" by simp
    from Cons.IH [OF this] obtain pre where p: "video_id_in cs pre v"
      and least: "\<forall>pre' v'. video_id_in cs pre' v' \<longrightarrow> length pre \<le> length pre'" by blast
    have "length (c # pre) \<le> length pre'" if "video_id_in (c # cs) pre' v'" for pre' v'
    proof (cases pre')
      case Nil
      with that None show ?thesis by (simp flip: match_here_Some)
    next
      case (Cons a list)
      with that least show ?thesis by (auto simp: video_id_in_Cons)
    qed
    with p show ?thesis by (intro exI [of _ "c # pre"]) (simp add: video_id_in_Cons)
  qed
qed

lemma url_match_None: "url_match url = None \<Longrightarrow> \<not> video_id_in url pre v"
proof (induction url arbitrary: pre)
  case Nil
  then show ?case by (simp add: video_id_in_Nil)
next
  case (Cons c cs)
  then have n: "match_here (c # cs) = None" and m: "url_match cs = None"
    by (auto split: option.splits)
  show ?case
  proof (cases pre)
    case Nil
    with n show ?thesis by (simp flip: match_here_Some)
  next
    case (Cons a list)
    with Cons.IH [OF m] show ?thesis by (auto simp: video_id_in_Cons)
  qed
qed

text \<open>
  C9. For every URL: when a watch URL or a short link occurs in it, \<open>getEmbedUrl\<close>
  returns \<open>https://www.youtube.com/embed/ID?autoplay=1&rel=0\<close> for the identifier
  \<open>ID\<close> of the leftmost occurrence; when none occurs, it returns the URL unchanged.
\<close>

theorem getEmbedUrl_shapes:
  "(if \<exists>pre v. video_id_in url pre v
    then \<exists>pre v. video_id_in url pre v
           \<and> (\<forall>pre' v'. video_id_in url pre' v' \<longrightarrow> length pre \<le> length pre')
           \<and> getEmbedUrl url = ''https://www.youtube.com/embed/'' @ v @ ''?autoplay=1&rel=0''
    else getEmbedUrl url = url)"
proof (cases "url_match url")
  case None
  then show ?thesis using url_match_None [OF None] by (simp add: getEmbedUrl_def)
next
  case (Some v)
  from url_match_Some [OF Some] obtain pre where p: "video_id_in url pre v"
    and least: "\<forall>pre' v'. video_id_in url pre' v' \<longrightarrow> length pre \<le> length pre'" by blast
  from p have "v \<noteq> []" by (auto simp: video_id_in_def)
  with Some have "getEmbedUrl url = ''https://www.youtube.com/embed/'' @ v @ ''?autoplay=1&rel=0''"
    by (simp add: getEmbedUrl_def)
  with p least show ?thesis by auto
qed

lemma watch_example:
  "getEmbedUrl ''https://www.youtube.com/watch?v=4dAaLbsQSzI&t=10''
     = ''https://www.youtube.com/embed/4dAaLbsQSzI?autoplay=1&rel=0''"
  by code_simp

lemma short_example:
  "getEmbedUrl ''https://youtu.be/abc'' = ''https://www.youtube.com/embed/abc?autoplay=1&rel=0''"
  by code_simp

lemma other_example: "url_match ''https://vimeo.com/1'' = None"
  by code_simp

theorem getEmbedUrl_shapes_witness:
  "video_id_in ''https://www.youtube.com/watch?v=4dAaLbsQSzI&t=10'' ''https://www.'' ''4dAaLbsQSzI''
   \<and> getEmbedUrl ''https://www.youtube.com/watch?v=4dAaLbsQSzI&t=10''
       = ''https://www.youtube.com/embed/4dAaLbsQSzI?autoplay=1&rel=0''
   \<and> (\<exists>pre v. video_id_in ''https://www.youtube.com/watch?v=4dAaLbsQSzI&t=10'' pre v
         \<and> ''https://www.youtube.com/embed/4dAaLbsQSzI?autoplay=1&rel=0''
             = ''https://www.youtube.com/embed/'' @ v @ ''?autoplay=1&rel=0'')
   \<and> video_id_in ''https://youtu.be/abc'' ''https://'' ''abc''
   \<and> getEmbedUrl ''https://youtu.be/abc'' = ''https://www.youtube.com/embed/abc?autoplay=1&rel=0''
   \<and> (\<forall>pre v. \<not> video_id_in ''https://vimeo.com/1'' pre v)
   \<and> getEmbedUrl ''https://vimeo.com/1'' = ''https://vimeo.com/1''"
proof -
  let ?w = "''https://www.youtube.com/watch?v=4dAaLbsQSzI&t=10''"
  have w: "video_id_in ?w ''https://www.'' ''4dAaLbsQSzI''"
    unfolding video_id_in_def by (intro exI [of _ "''&t=10''"]) simp
  have s: "video_id_in ''https://youtu.be/abc'' ''https://'' ''abc''"
    unfolding video_id_in_def by (intro exI [of _ "[]"]) simp
  have n: "\<forall>pre v. \<not> video_id_in ''https://vimeo.com/1'' pre v"
    using url_match_None [OF other_example] by blast
  from w have "\<exists>pre v. video_id_in ?w pre v" by blast
  with getEmbedUrl_shapes [of ?w]
  have "\<exists>pre v. video_id_in ?w pre v
          \<and> (\<forall>pre' v'. video_id_in ?w pre' v' \<longrightarrow> length pre \<le> length pre')
          \<and> getEmbedUrl ?w = ''https://www.youtube.com/embed/'' @ v @ ''?autoplay=1&rel=0''"
    by (simp only: if_True)
  then have a: "\<exists>pre v. video_id_in ?w pre v
          \<and> ''https://www.youtube.com/embed/4dAaLbsQSzI?autoplay=1&rel=0''
              = ''https://www.youtube.com/embed/'' @ v @ ''?autoplay=1&rel=0''"
    unfolding watch_example by blast
  from n have "\<not> (\<exists>pre v. video_id_in ''https://vimeo.com/1'' pre v)" by blast
  with getEmbedUrl_shapes [of "''https://vimeo.com/1''"]
  have b: "getEmbedUrl ''https://vimeo.com/1'' = ''https://vimeo.com/1''"
    by (simp only: if_False)
  from w watch_example a s short_example n b show ?thesis by blast
qed

subsection \<open>The listing\<close>

lemma dbl_less_irrefl: "\<not> dbl_less a a"
  by (cases a) auto

lemma dbl_less_trans: "dbl_less a b \<Longrightarrow> dbl_less b c \<Longrightarrow> dbl_less a c"
  by (cases a; cases b; cases c) auto

lemma dbl_less_linear: "dbl_less a b \<or> a = b \<or> dbl_less b a"
  by (cases a; cases b) auto

lemma dbl_less_int_left: "x < y \<Longrightarrow> dbl_less (Fin (of_int y)) e \<Longrightarrow> dbl_less (Fin (of_int x)) e"
  by (cases e) auto

lemma dbl_less_int_right: "dbl_less d (Fin (of_int x)) \<Longrightarrow> x < y \<Longrightarrow> dbl_less d (Fin (of_int y))"
  by (cases d) auto

lemma dbl_less_int_mid: "dbl_less (Fin (of_int x)) d \<Longrightarrow> dbl_less d (Fin (of_int y)) \<Longrightarrow> x < y"
  by (cases d) auto

lemma sql_less_irrefl: "\<not> sql_less a a"
  by (cases a) (auto simp: dbl_less_irrefl)

lemma sql_less_trans: "sql_less a b \<Longrightarrow> sql_less b c \<Longrightarrow> sql_less a c"
proof (cases a; cases b; cases c)
qed (auto intro: dbl_less_int_left dbl_less_int_right dbl_less_int_mid dbl_less_trans)

lemma sql_less_neg_trans: "\<not> sql_less a b \<Longrightarrow> \<not> sql_less b c \<Longrightarrow> \<not> sql_less a c"
proof (cases a; cases b; cases c)
  fix x y e assume "a = SInt x" "b = SInt y" "c = SReal e" "\<not> sql_less a b" "\<not> sql_less b c"
  then show ?thesis by (cases e) auto
next
  fix x e z assume "a = SInt x" "b = SReal e" "c = SInt z" "\<not> sql_less a b" "\<not> sql_less b c"
  then show ?thesis by (cases e) auto
next
  fix x d e assume "a = SInt x" "b = SReal d" "c = SReal e" "\<not> sql_less a b" "\<not> sql_less b c"
  then show ?thesis by (cases d; cases e) auto
next
  fix d y z assume "a = SReal d" "b = SInt y" "c = SInt z" "\<not> sql_less a b" "\<not> sql_less b c"
  then show ?thesis by (cases d) auto
next
  fix d y e assume "a = SReal d" "b = SInt y" "c = SReal e" "\<not> sql_less a b" "\<not> sql_less b c"
  then show ?thesis by (cases d; cases e) auto
next
  fix d e z assume "a = SReal d" "b = SReal e" "c = SInt z" "\<not> sql_less a b" "\<not> sql_less b c"
  then show ?thesis by (cases d; cases e) auto
next
  fix d e f assume "a = SReal d" "b = SReal e" "c = SReal f" "\<not> sql_less a b" "\<not> sql_less b c"
  then show ?thesis by (cases d; cases e; cases f) auto
qed auto

lemma sql_eq_less: "sql_eq a b \<Longrightarrow> sql_less b c \<Longrightarrow> sql_less a c"
  using sql_less_neg_trans [of b a c] by (auto simp: sql_eq_def)

lemma sql_less_eq: "sql_less a b \<Longrightarrow> sql_eq b c \<Longrightarrow> sql_less a c"
  using sql_less_neg_trans [of a c b] by (auto simp: sql_eq_def)

lemma sql_eq_trans: "sql_eq a b \<Longrightarrow> sql_eq b c \<Longrightarrow> sql_eq a c"
  using sql_less_neg_trans [of a b c] sql_less_neg_trans [of c b a] by (auto simp: sql_eq_def)

lemma order_total: "year_desc_title_asc a b \<or> year_desc_title_asc b a"
  by (auto simp: year_desc_title_asc_def sql_eq_def)

lemma order_trans:
  "year_desc_title_asc a b \<Longrightarrow> year_desc_title_asc b c \<Longrightarrow> year_desc_title_asc a c"
  unfolding year_desc_title_asc_def
  using sql_less_trans [of "year c" "year b" "year a"] sql_eq_less [of "year c" "year b" "year a"]
    sql_less_eq [of "year c" "year b" "year a"] sql_eq_trans [of "year a" "year b" "year c"]
  by (auto simp: sql_eq_def)

lemma mset_insert_row: "mset (insert_row m xs) = add_mset m (mset xs)"
  by (induction xs) auto

lemma set_insert_row: "set (insert_row m xs) = insert m (set xs)"
  by (induction xs) auto

lemma sorted_insert_row:
  "sorted_wrt year_desc_title_asc xs \<Longrightarrow> sorted_wrt year_desc_title_asc (insert_row m xs)"
proof (induction xs)
  case Nil
  then show ?case by simp
next
  case (Cons x xs)
  show ?case
  proof (cases "year_desc_title_asc m x")
    case True
    with Cons.prems show ?thesis by (auto intro: order_trans)
  next
    case False
    with order_total [of m x] have "year_desc_title_asc x m" by simp
    with False Cons show ?thesis by (auto simp: set_insert_row)
  qed
qed

lemma mset_order_by: "mset (order_by rows) = mset rows"
  by (induction rows) (auto simp: order_by_def mset_insert_row)

lemma sorted_order_by: "sorted_wrt year_desc_title_asc (order_by rows)"
  by (induction rows) (auto simp: order_by_def sorted_insert_row)

lemma double_of_int_exact: "\<bar>n\<bar> \<le> 2 ^ 53 \<Longrightarrow> double_of_int n = n"
  by (simp add: double_of_int_def)

lemma year_json_less:
  "exact_year a \<Longrightarrow> exact_year b \<Longrightarrow> js_less (year_json a) (year_json b) = sql_less a b"
  by (cases a; cases b)
    (auto simp: exact_year_def year_json_def double_of_int_exact split: dbl.splits)

lemma year_json_eq:
  "exact_year a \<Longrightarrow> exact_year b \<Longrightarrow> sql_eq a b \<Longrightarrow> year_json a = year_json b"
  by (cases a; cases b)
    (auto simp: exact_year_def year_json_def double_of_int_exact sql_eq_def split: dbl.splits)

text \<open>
  C1 (as the code has it). \<open>GET /api/movies\<close> answers 200 with all rows of the
  table, ordered by the stored years: of any two rows of the answer the earlier one
  has the greater stored year, or an equal stored year and a title that is not
  greater; NULL is lower than every other value, so rows without a year come last.
  The years as the caller reads them obey the same rule when every stored year is
  NULL, an INTEGER of at most \<open>2^53\<close> in size, or a finite REAL.
\<close>

theorem list_sorted:
  "get_movies st = (st, \<lparr>status = 200, payload = JsonMovies (map to_json (select_all st))\<rparr>)
   \<and> mset (select_all st) = mset (movies st)
   \<and> (\<forall>i j. i < j \<and> j < length (select_all st) \<longrightarrow>
         sql_less (year (select_all st ! j)) (year (select_all st ! i))
         \<or> (sql_eq (year (select_all st ! i)) (year (select_all st ! j))
            \<and> title (select_all st ! i) \<le> title (select_all st ! j)))
   \<and> (\<forall>y. y \<noteq> SNull \<longrightarrow> sql_less SNull y)
   \<and> ((\<forall>m \<in> set (movies st). exact_year (year m)) \<longrightarrow>
        (\<forall>i j. i < j \<and> j < length (select_all st) \<longrightarrow>
           js_less (j_year (map to_json (select_all st) ! j))
                   (j_year (map to_json (select_all st) ! i))
           \<or> (j_year (map to_json (select_all st) ! i) = j_year (map to_json (select_all st) ! j)
              \<and> j_title (map to_json (select_all st) ! i)
                  \<le> j_title (map to_json (select_all st) ! j))))"
proof -
  let ?xs = "select_all st"
  have "sorted_wrt year_desc_title_asc ?xs"
    by (simp add: select_all_def sorted_order_by)
  then have s: "year_desc_title_asc (?xs ! i) (?xs ! j)" if "i < j" "j < length ?xs" for i j
    using that by (simp add: sorted_wrt_iff_nth_less)
  have m: "mset ?xs = mset (movies st)" by (simp add: select_all_def mset_order_by)
  have n: "sql_less SNull y" if "y \<noteq> SNull" for y
    using that by (cases y) auto
  have j: "js_less (j_year (map to_json ?xs ! j)) (j_year (map to_json ?xs ! i))
           \<or> (j_year (map to_json ?xs ! i) = j_year (map to_json ?xs ! j)
              \<and> j_title (map to_json ?xs ! i) \<le> j_title (map to_json ?xs ! j))"
    if e: "\<forall>m \<in> set (movies st). exact_year (year m)" and ij: "i < j" "j < length ?xs" for i j
  proof -
    have "set ?xs = set (movies st)" using m by (rule mset_eq_setD)
    with e ij have ei: "exact_year (year (?xs ! i))" and ej: "exact_year (year (?xs ! j))"
      by (auto simp: Ball_def)
    from ij have yi: "j_year (map to_json ?xs ! i) = year_json (year (?xs ! i))"
      and yj: "j_year (map to_json ?xs ! j) = year_json (year (?xs ! j))"
      and ti: "j_title (map to_json ?xs ! i) = title (?xs ! i)"
      and tj: "j_title (map to_json ?xs ! j) = title (?xs ! j)"
      by (simp_all add: to_json_def)
    from s [OF ij] show ?thesis
      unfolding yi yj ti tj year_desc_title_asc_def
      using year_json_less [OF ej ei] year_json_eq [OF ei ej] by auto
  qed
  show ?thesis
    using s m n j by (simp add: get_movies_def year_desc_title_asc_def)
qed

lemma three_movies_years: "map year (select_all (three_movies sq)) = [SInt 2020, SInt 2018, SNull]"
  by code_simp

lemma three_movies_exact: "list_all (\<lambda>m. exact_year (year m)) (movies (three_movies sq))"
  by code_simp

lemma three_movies_json:
  "map j_year (map to_json (select_all (three_movies sq))) = [JNum (Fin 2020), JNum (Fin 2018), JNull]"
  by code_simp

theorem list_sorted_witness:
  "\<forall>sq. map year (select_all (three_movies sq)) = [SInt 2020, SInt 2018, SNull]
     \<and> list_all (\<lambda>m. exact_year (year m)) (movies (three_movies sq))
     \<and> map j_year (map to_json (select_all (three_movies sq))) = [JNum (Fin 2020), JNum (Fin 2018), JNull]
     \<and> (sql_less (year (select_all (three_movies sq) ! 1)) (year (select_all (three_movies sq) ! 0))
         \<or> (sql_eq (year (select_all (three_movies sq) ! 0)) (year (select_all (three_movies sq) ! 1))
            \<and> title (select_all (three_movies sq) ! 0) \<le> title (select_all (three_movies sq) ! 1)))
     \<and> (js_less (j_year (map to_json (select_all (three_movies sq)) ! 2))
                 (j_year (map to_json (select_all (three_movies sq)) ! 1))
         \<or> (j_year (map to_json (select_all (three_movies sq)) ! 1)
               = j_year (map to_json (select_all (three_movies sq)) ! 2)
            \<and> j_title (map to_json (select_all (three_movies sq)) ! 1)
                \<le> j_title (map to_json (select_all (three_movies sq)) ! 2)))
     \<and> sql_less SNull (SInt 2018)"
  (is "\<forall>sq. ?P sq")
proof (rule allI)
  fix sq
  have l: "length (select_all (three_movies sq)) = 3"
    using three_movies_years [THEN arg_cong, of length] by simp
  then have a: "(0::nat) < 1 \<and> 1 < length (select_all (three_movies sq))"
    and b: "(1::nat) < 2 \<and> 2 < length (select_all (three_movies sq))" by simp_all
  have e: "\<forall>m \<in> set (movies (three_movies sq)). exact_year (year m)"
    using three_movies_exact [of sq] by (simp add: list_all_iff)
  have n: "SInt 2018 \<noteq> SNull" by simp
  from list_sorted [of "three_movies sq"] a b e n three_movies_years [of sq] three_movies_exact [of sq] three_movies_json [of sq]
  show "?P sq" by blast
qed

text \<open>
  C1 as stated fails on the records the caller gets: the years \<open>9007199254740993\<close>
  and \<open>9007199254740992\<close> are stored as they are and ordered by their stored values,
  and both reach the caller as the number \<open>9007199254740992\<close>; so the two returned
  records have equal years and the title \<open>z\<close> stands before the title \<open>a\<close>.
\<close>

theorem list_long_years:
  "map year (select_all long_years) = [SInt 9007199254740993, SInt 9007199254740992]
   \<and> payload (snd (get_movies long_years)) = JsonMovies (map to_json (select_all long_years))
   \<and> map j_year (map to_json (select_all long_years))
       = [JNum (Fin 9007199254740992), JNum (Fin 9007199254740992)]
   \<and> map j_title (map to_json (select_all long_years)) = [''z'', ''a'']
   \<and> \<not> js_less (JNum (Fin 9007199254740992)) (JNum (Fin 9007199254740992))
   \<and> \<not> ''z'' \<le> ''a''"
  by code_simp

subsection \<open>The handlers, case by case\<close>

lemma post_handler_Inl:
  "run_insert sq st (current_timestamp r) (run_args r (map_option poster_path fl)) = Inl e \<Longrightarrow>
   post_handler sq st r fl = (st, \<lparr>status = 500, payload = JsonError e\<rparr>)"
  by (simp add: post_handler_def Let_def)

lemma post_handler_Inr:
  "run_insert sq st (current_timestamp r) (run_args r (map_option poster_path fl)) = Inr (st', i) \<Longrightarrow>
   post_handler sq st r fl
     = (st', \<lparr>status = 201, payload = json_row (select_by_id st' (double_of_int i))\<rparr>)"
  by (simp add: post_handler_def Let_def)

lemma post_movies_Inl:
  "upload_single st r = Inl e \<Longrightarrow> post_movies sq st r = (st, \<lparr>status = 500, payload = ErrorPage e\<rparr>)"
  by (simp add: post_movies_def)

lemma post_movies_Inr:
  "upload_single st r = Inr (st1, fl) \<Longrightarrow> post_movies sq st r = post_handler sq st1 r fl"
  by (simp add: post_movies_def)

lemma put_handler_404:
  "select_by_id st i = None \<Longrightarrow>
   put_handler sq st i r fl = ([st], \<lparr>status = 404, payload = JsonNotFound\<rparr>)"
  by (simp add: put_handler_def)

lemma put_handler_removal_fails:
  "select_by_id st i = Some m \<Longrightarrow> removal st m fl = Inl e \<Longrightarrow>
   put_handler sq st i r fl = ([st], \<lparr>status = 500, payload = JsonError e\<rparr>)"
  by (simp add: put_handler_def removal_def)

lemma put_handler_update_fails:
  "select_by_id st i = Some m \<Longrightarrow> removal st m fl = Inr st2 \<Longrightarrow>
   run_update sq st2 (current_timestamp r) (run_args r (kept_or_new m fl)) i = Inl e \<Longrightarrow>
   put_handler sq st i r fl = ([st, st2], \<lparr>status = 500, payload = JsonError e\<rparr>)"
  by (simp add: put_handler_def removal_def kept_or_new_def Let_def)

lemma put_handler_ok:
  "select_by_id st i = Some m \<Longrightarrow> removal st m fl = Inr st2 \<Longrightarrow>
   run_update sq st2 (current_timestamp r) (run_args r (kept_or_new m fl)) i = Inr st3 \<Longrightarrow>
   put_handler sq st i r fl = ([st, st2, st3], \<lparr>status = 200, payload = json_row (select_by_id st3 i)\<rparr>)"
  by (simp add: put_handler_def removal_def kept_or_new_def Let_def)

lemma put_trace_Inl:
  "upload_single st r = Inl e \<Longrightarrow> put_trace sq st i r = ([st], \<lparr>status = 500, payload = ErrorPage e\<rparr>)"
  by (simp add: put_trace_def)

lemma put_trace_Inr:
  "upload_single st r = Inr (st1, fl) \<Longrightarrow> put_handler sq st1 i r fl = (tr, resp) \<Longrightarrow>
   put_trace sq st i r = (st # tr, resp)"
  by (simp add: put_trace_def)

subsection \<open>Ids\<close>

lemma fold_max_below: "\<forall>x \<in> set xs. x \<le> a \<Longrightarrow> fold max xs a = (a :: int)"
  by (induction xs arbitrary: a) auto

lemma largest_id_seq: "ids_below st \<Longrightarrow> largest_id st = seq st"
  by (simp add: largest_id_def ids_below_def ids_def fold_max_below)

lemma insert_movie_ids:
  assumes "insert_movie st now v = Inr (st', i)" and "ids_below st"
  shows "i = seq st + 1 \<and> ids st' = ids st @ [i] \<and> seq st' = i \<and> disk st' = disk st \<and> ids_below st'"
proof -
  from assms(1) obtain t where t: "n_title v = Some t" and nf: "\<not> largest_id st \<ge> max_rowid"
    by (auto simp: insert_movie_def split: option.splits if_splits)
  from assms(1) t nf have i: "i = largest_id st + 1"
    and m: "movies st' = movies st @ [\<lparr>movie_id = i, title = t, year = n_year v,
          poster_url = n_poster_url v, poster_local = n_poster_local v, dop = n_dop v,
          bobo_crew = n_bobo_crew v, imdb_url = n_imdb_url v, tmdb_url = n_tmdb_url v,
          trailer_url = n_trailer_url v, production_company = n_production_company v,
          synopsis = n_synopsis v, created_at = now, updated_at = now\<rparr>]"
    and s: "seq st' = i" and d: "disk st' = disk st"
    by (auto simp: insert_movie_def Let_def)
  have l: "largest_id st = seq st" by (rule largest_id_seq [OF assms(2)])
  have ids: "ids st' = ids st @ [i]" using m by (simp add: ids_def)
  have "ids_below st'"
    unfolding ids_below_def
  proof
    fix j assume "j \<in> set (ids st')"
    then have "j = i \<or> j \<in> set (ids st)" using ids by auto
    then show "j \<le> seq st'"
    proof
      assume "j = i" then show ?thesis using s by simp
    next
      assume "j \<in> set (ids st)"
      then have "j \<le> seq st" using assms(2) by (simp add: ids_below_def)
      then show ?thesis using s i l by simp
    qed
  qed
  with i l ids s d show ?thesis by simp
qed

lemma seed_loop_ids:
  "ids_below st \<Longrightarrow>
   \<exists>new. ids (seed_loop st now vs) = ids st @ new \<and> sorted_wrt (<) new
     \<and> (\<forall>i \<in> set new. seq st < i \<and> i \<le> seq (seed_loop st now vs))
     \<and> seq st \<le> seq (seed_loop st now vs) \<and> ids_below (seed_loop st now vs)"
proof (induction vs arbitrary: st)
  case Nil
  then show ?case by simp
next
  case (Cons v vs)
  show ?case
  proof (cases "insert_movie st now v")
    case (Inl e)
    with Cons.prems show ?thesis by simp
  next
    case (Inr p)
    obtain st' i where p: "p = (st', i)" by (cases p)
    note ins = insert_movie_ids [OF Inr [unfolded p] Cons.prems]
    from ins have b: "ids_below st'" by simp
    from Cons.IH [OF b] obtain new where
      n: "ids (seed_loop st' now vs) = ids st' @ new" "sorted_wrt (<) new"
         "\<forall>i \<in> set new. seq st' < i \<and> i \<le> seq (seed_loop st' now vs)"
         "seq st' \<le> seq (seed_loop st' now vs)" "ids_below (seed_loop st' now vs)"
      by blast
    have s: "seed_loop st now (v # vs) = seed_loop st' now vs" using Inr p by simp
    have "ids (seed_loop st' now vs) = ids st @ (i # new)" using n(1) ins by simp
    moreover have "sorted_wrt (<) (i # new)" using n(2,3) ins by auto
    moreover have "\<forall>j \<in> set (i # new). seq st < j \<and> j \<le> seq (seed_loop st' now vs)"
      using n(3,4) ins by auto
    moreover have "seq st \<le> seq (seed_loop st' now vs)" using n(4) ins by simp
    ultimately show ?thesis unfolding s using n(5) by blast
  qed
qed

lemma grows_append:
  assumes "ids st' = ids st @ new" "sorted_wrt (<) new"
    "\<forall>i \<in> set new. seq st < i \<and> i \<le> seq st'" "seq st \<le> seq st'" "ids_below st'"
  shows "grows st st'"
  unfolding grows_def using assms by (intro conjI exI [of _ "ids st"] exI [of _ new]) auto

lemma grows_subset:
  assumes "set (ids st') \<subseteq> set (ids st)" "seq st' = seq st" "ids_below st"
  shows "grows st st'"
  unfolding grows_def using assms
  by (intro conjI exI [of _ "ids st'"] exI [of _ "[]"]) (auto simp: ids_below_def)

lemma grows_startup: "ids_below st \<Longrightarrow> grows st (startup st now)"
proof -
  assume b: "ids_below st"
  show ?thesis
  proof (cases "length (movies st) = 0")
    case True
    from seed_loop_ids [OF b, of now seedMovies] obtain new where
      "ids (seed_loop st now seedMovies) = ids st @ new" "sorted_wrt (<) new"
      "\<forall>i \<in> set new. seq st < i \<and> i \<le> seq (seed_loop st now seedMovies)"
      "seq st \<le> seq (seed_loop st now seedMovies)" "ids_below (seed_loop st now seedMovies)"
      by blast
    then have "grows st (seed_loop st now seedMovies)" by (rule grows_append)
    with True show ?thesis by (simp add: startup_def)
  next
    case False
    then show ?thesis using b by (simp add: startup_def grows_subset)
  qed
qed

lemma upload_single_rows:
  "upload_single st r = Inr (st1, fl) \<Longrightarrow> movies st1 = movies st \<and> seq st1 = seq st"
  by (auto simp: upload_single_def split: option.splits if_splits)

lemma remove_poster_rows:
  "remove_poster st m = Inr st2 \<Longrightarrow> movies st2 = movies st \<and> seq st2 = seq st"
  by (auto simp: remove_poster_def unlinkSync_def split: option.splits if_splits fentry.splits)

lemma update_movie_ids:
  "update_movie st now v i = Inr st3 \<Longrightarrow> ids st3 = ids st \<and> seq st3 = seq st \<and> disk st3 = disk st"
  by (auto simp: update_movie_def ids_def set_row_def split: option.splits if_splits)

lemma run_insert_Inr:
  "run_insert sq st now args = Inr (st', i) \<Longrightarrow>
   \<exists>bs. stmt_bind 11 args = Inr bs \<and> insert_movie st now (columns sq bs) = Inr (st', i)"
  by (auto simp: run_insert_def split: sum.splits)

lemma run_update_Inr:
  "run_update sq st now args i = Inr st3 \<Longrightarrow>
   \<exists>bs. stmt_bind 11 args = Inr bs \<and> update_movie st now (columns sq bs) i = Inr st3"
  by (auto simp: run_update_def split: sum.splits)

lemma grows_post: assumes b: "ids_below st" shows "grows st (fst (post_movies sq st r))"
proof (cases "upload_single st r")
  case (Inl e)
  then show ?thesis using b by (simp add: post_movies_Inl grows_subset)
next
  case (Inr p)
  obtain st1 fl where p: "p = (st1, fl)" by (cases p)
  note up = Inr [unfolded p]
  note u = upload_single_rows [OF up]
  from u b have b1: "ids_below st1" by (simp add: ids_below_def ids_def)
  show ?thesis
  proof (cases "run_insert sq st1 (current_timestamp r) (run_args r (map_option poster_path fl))")
    case (Inl e)
    have "fst (post_movies sq st r) = st1"
      by (simp add: post_movies_Inr [OF up] post_handler_Inl [OF Inl])
    with u b show ?thesis by (simp add: grows_subset ids_def)
  next
    case (Inr q)
    obtain st' i where q: "q = (st', i)" by (cases q)
    from run_insert_Inr [OF Inr [unfolded q]] obtain bs where
      "insert_movie st1 (current_timestamp r) (columns sq bs) = Inr (st', i)" by blast
    note ins = insert_movie_ids [OF this b1]
    have f: "fst (post_movies sq st r) = st'"
      by (simp add: post_movies_Inr [OF up] post_handler_Inr [OF Inr [unfolded q]])
    have "grows st st'"
    proof (rule grows_append [where new = "[i]"])
      show "ids st' = ids st @ [i]" using ins u by (simp add: ids_def)
      show "sorted_wrt (<) [i]" by simp
      show "\<forall>j \<in> set [i]. seq st < j \<and> j \<le> seq st'" using ins u by simp
      show "seq st \<le> seq st'" using ins u by simp
      show "ids_below st'" using ins by simp
    qed
    with f show ?thesis by simp
  qed
qed

lemma removal_rows:
  "removal st m fl = Inr st2 \<Longrightarrow> movies st2 = movies st \<and> seq st2 = seq st"
  by (auto simp: removal_def split: if_splits dest: remove_poster_rows)

lemma put_handler_ids:
  "put_handler sq st i r fl = (tr, resp) \<Longrightarrow>
   tr \<noteq> [] \<and> ids (last tr) = ids st \<and> seq (last tr) = seq st"
proof (cases "select_by_id st i")
  case None
  assume "put_handler sq st i r fl = (tr, resp)"
  with put_handler_404 [OF None, where sq = sq and r = r and fl = fl] show ?thesis by auto
next
  case (Some m)
  assume h: "put_handler sq st i r fl = (tr, resp)"
  show ?thesis
  proof (cases "removal st m fl")
    case (Inl e)
    with put_handler_removal_fails [OF Some Inl, where sq = sq and r = r] h show ?thesis by auto
  next
    case (Inr st2)
    note rr = removal_rows [OF Inr]
    show ?thesis
    proof (cases "run_update sq st2 (current_timestamp r) (run_args r (kept_or_new m fl)) i")
      case (Inl e)
      with put_handler_update_fails [OF Some Inr Inl] h rr show ?thesis
        by (auto simp: ids_def)
    next
      case (Inr st3)
      from run_update_Inr [OF Inr] obtain bs where
        "update_movie st2 (current_timestamp r) (columns sq bs) i = Inr st3" by blast
      with put_handler_ok [OF Some \<open>removal st m fl = Inr st2\<close> Inr] h rr
        update_movie_ids [OF this]
      show ?thesis by (auto simp: ids_def)
    qed
  qed
qed

lemma put_movies_ids: "ids (fst (put_movies sq st i r)) = ids st \<and> seq (fst (put_movies sq st i r)) = seq st"
proof (cases "upload_single st r")
  case (Inl e)
  then show ?thesis by (simp add: put_movies_def put_trace_Inl)
next
  case (Inr p)
  obtain st1 fl where p: "p = (st1, fl)" by (cases p)
  note up = Inr [unfolded p]
  note u = upload_single_rows [OF up]
  obtain tr resp where h: "put_handler sq st1 i r fl = (tr, resp)" by (cases "put_handler sq st1 i r fl")
  note hi = put_handler_ids [OF h]
  have "fst (put_movies sq st i r) = last tr"
    using hi by (simp add: put_movies_def put_trace_Inr [OF up h])
  with hi u show ?thesis by (simp add: ids_def)
qed

lemma delete_movies_ids:
  "set (ids (fst (delete_movies st i))) \<subseteq> set (ids st) \<and> seq (fst (delete_movies st i)) = seq st"
  by (auto simp: delete_movies_def delete_movie_def ids_def
      split: option.splits sum.splits dest!: remove_poster_rows)

lemma grows_step: "ids_below st \<Longrightarrow> grows st (step sq st x)"
proof (cases x)
  case (Startup now)
  assume "ids_below st"
  then show ?thesis using Startup by (simp add: grows_startup)
next
  case (Post r)
  assume "ids_below st"
  then show ?thesis using Post by (simp add: grows_post)
next
  case (Put i r)
  assume "ids_below st"
  then show ?thesis using Put put_movies_ids [of sq st i r] by (simp add: grows_subset)
next
  case (Delete i)
  assume "ids_below st"
  then show ?thesis using Delete delete_movies_ids [of st i] by (simp add: grows_subset)
next
  case GetAll
  assume "ids_below st"
  then show ?thesis using GetAll by (simp add: get_movies_def grows_subset)
next
  case (GetOne i)
  assume "ids_below st"
  then show ?thesis using GetOne by (simp add: get_movie_def grows_subset split: option.splits)
qed

lemma new_ids_grows:
  assumes "ids_below st" "grows st st'"
  shows "sorted_wrt (<) (new_ids st st') \<and> (\<forall>i \<in> set (new_ids st st'). seq st < i \<and> i \<le> seq st')"
proof -
  from assms(2) obtain kept new where k: "ids st' = kept @ new" "set kept \<subseteq> set (ids st)"
    "sorted_wrt (<) new" "\<forall>i \<in> set new. seq st < i \<and> i \<le> seq st'"
    unfolding grows_def by blast
  have "filter (\<lambda>i. i \<notin> set (ids st)) kept = []" using k(2) by (auto simp: filter_empty_conv)
  moreover have "filter (\<lambda>i. i \<notin> set (ids st)) new = new"
    using k(4) assms(1) by (fastforce simp: ids_below_def filter_id_conv)
  ultimately have "new_ids st st' = new" by (simp add: new_ids_def k(1))
  with k show ?thesis by simp
qed

lemma assigned_increasing:
  "ids_below st \<Longrightarrow>
   sorted_wrt (<) (assigned sq st xs) \<and> (\<forall>i \<in> set (assigned sq st xs). seq st < i)"
proof (induction xs arbitrary: st)
  case Nil
  then show ?case by simp
next
  case (Cons x xs)
  note g = grows_step [OF Cons.prems, of sq x]
  then have b: "ids_below (step sq st x)" and le: "seq st \<le> seq (step sq st x)"
    by (auto simp: grows_def)
  note n = new_ids_grows [OF Cons.prems g]
  note r = Cons.IH [OF b]
  have "sorted_wrt (<) (new_ids st (step sq st x) @ assigned sq (step sq st x) xs)"
    using n r by (fastforce simp: sorted_wrt_append)
  moreover have "\<forall>i \<in> set (new_ids st (step sq st x) @ assigned sq (step sq st x) xs). seq st < i"
    using n r le by fastforce
  ultimately show ?case by simp
qed

lemma ids_below_empty: "ids_below empty_db"
  by (simp add: ids_below_def ids_def empty_db_def)

text \<open>
  C8. Along every run of the server from the empty database (start-ups with their
  seeding, creations, updates, deletions, reads), the ids given out are strictly
  increasing: an id is never given out twice, whatever was deleted in between.
\<close>

theorem ids_never_reused:
  "sorted_wrt (<) (assigned sq empty_db xs) \<and> distinct (assigned sq empty_db xs)"
proof -
  have s: "sorted_wrt (<) (assigned sq empty_db xs)"
    using assigned_increasing [OF ids_below_empty] by simp
  then show ?thesis by (simp add: strict_sorted_iff)
qed

lemma restart_run_assigned: "assigned sq empty_db restart_run = [1, 2, 3, 4, 5, 6, 7, 8, 9, 10]"
  by code_simp

theorem ids_never_reused_witness:
  "\<forall>sq. assigned sq empty_db restart_run = [1, 2, 3, 4, 5, 6, 7, 8, 9, 10]
     \<and> distinct (assigned sq empty_db restart_run)"
  (is "\<forall>sq. ?P sq")
proof (rule allI)
  fix sq
  show "?P sq"
    using ids_never_reused [of sq restart_run] restart_run_assigned [of sq] by simp
qed

subsection \<open>What create and update store\<close>

lemma fold_max_ge: "(a :: int) \<le> fold max xs a \<and> (\<forall>x \<in> set xs. x \<le> fold max xs a)"
proof (induction xs arbitrary: a)
  case Nil
  then show ?case by simp
next
  case (Cons x xs)
  from Cons [of "max x a"] show ?case by auto
qed

lemma largest_id_ge: "m \<in> set (movies st) \<Longrightarrow> movie_id m \<le> largest_id st"
  using fold_max_ge [of "seq st" "map movie_id (movies st)"] by (simp add: largest_id_def)

lemma find_append_new:
  "\<forall>x \<in> set xs. \<not> P x \<Longrightarrow> P y \<Longrightarrow> find P (xs @ [y]) = Some y"
  by (induction xs) auto

lemma insert_movie_Inr:
  assumes "insert_movie st now v = Inr (st', i)"
  shows "\<exists>t. n_title v = Some t \<and> i = largest_id st + 1 \<and> i \<le> max_rowid
           \<and> st' = st\<lparr>movies := movies st @ [new_movie i now t v], seq := i\<rparr>
           \<and> select_by_id st' i = Some (new_movie i now t v)"
proof -
  from assms obtain t where t: "n_title v = Some t" and nf: "\<not> largest_id st \<ge> max_rowid"
    by (auto simp: insert_movie_def split: option.splits if_splits)
  from assms t nf have i: "i = largest_id st + 1"
    and st': "st' = st\<lparr>movies := movies st @ [new_movie i now t v], seq := i\<rparr>"
    by (auto simp: insert_movie_def Let_def new_movie_def)
  have "\<forall>m \<in> set (movies st). \<not> movie_id m = i"
    using largest_id_ge [of _ st] i by fastforce
  then have "find (\<lambda>m. movie_id m = i) (movies st @ [new_movie i now t v]) = Some (new_movie i now t v)"
    by (rule find_append_new) (simp add: new_movie_def)
  then have "select_by_id st' i = Some (new_movie i now t v)"
    by (simp add: select_by_id_def st')
  with t i nf st' show ?thesis by simp
qed

lemma insert_movie_Inl:
  "insert_movie st now v = Inl e \<Longrightarrow>
   (e = NotNullTitle \<and> n_title v = None) \<or> (e = DatabaseFull \<and> n_title v \<noteq> None)"
  by (auto simp: insert_movie_def Let_def split: option.splits if_splits)

lemma insert_movie_no_title: "n_title v = None \<Longrightarrow> insert_movie st now v = Inl NotNullTitle"
  by (simp add: insert_movie_def)

lemma find_map_set_row:
  "find (\<lambda>m. movie_id m = i) (map (\<lambda>m. if movie_id m = i then set_row now t v m else m) ms)
   = map_option (set_row now t v) (find (\<lambda>m. movie_id m = i) ms)"
  by (induction ms) (auto simp: set_row_def)

lemma update_movie_Some:
  assumes "n_title v = Some t" and "select_by_id st i = Some m"
  shows "\<exists>st3. update_movie st now v i = Inr st3 \<and> select_by_id st3 i = Some (set_row now t v m)
           \<and> seq st3 = seq st \<and> disk st3 = disk st"
  using assms by (simp add: update_movie_def select_by_id_def find_map_set_row)

lemma update_movie_None:
  "n_title v = None \<Longrightarrow> select_by_id st i = Some m \<Longrightarrow> update_movie st now v i = Inl NotNullTitle"
  by (simp add: update_movie_def)

lemma movie_id_set_row [simp]: "movie_id (set_row now t v m) = movie_id m"
  by (simp add: set_row_def)

lemma movie_id_new_movie [simp]: "movie_id (new_movie i now t v) = i"
  by (simp add: new_movie_def)

lemma those_map_Some: "those xs = Some ys \<Longrightarrow> map Some ys = xs"
  by (induction xs arbitrary: ys) (auto split: option.splits)

lemma those_all_Some: "list_all (\<lambda>x. x \<noteq> None) xs \<Longrightarrow> \<exists>ys. those xs = Some ys"
  by (induction xs) auto

lemma bind_args_scalar: "list_all scalar args \<Longrightarrow> bind_args bo args = those (map bind_value args)"
proof (induction args)
  case Nil
  then show ?case by simp
next
  case (Cons a args)
  then have IH: "bind_args bo args = those (map bind_value args)" and a: "scalar a" by simp_all
  show ?case
  proof (cases a)
    case None
    then show ?thesis using IH by simp
  next
    case (Some v)
    with a IH show ?thesis by (cases v) (simp_all add: scalar_def)
  qed
qed

lemma stmt_bind_Inr:
  "stmt_bind n args = Inr bs \<Longrightarrow> bind_args False args = Some bs \<and> length bs = n"
  by (auto simp: stmt_bind_def split: option.splits if_splits)

lemma stmt_bind_undefined:
  assumes "stmt_bind n (None # args) = Inr bs"
  shows "bs ! 0 = BNull"
  using stmt_bind_Inr [OF assms] by auto

lemma scalar_or_null: "scalar x \<Longrightarrow> scalar (Some (or_null x))"
  by (auto simp: scalar_def or_null_def split: option.splits jsval.splits)

lemma scalar_path: "scalar (Some (case pl of None \<Rightarrow> JNull | Some p \<Rightarrow> JStr p))"
  by (simp add: scalar_def split: option.splits)

lemma scalar_args: "scalar_fields r \<Longrightarrow> list_all scalar (run_args r pl)"
  by (simp add: scalar_fields_def optional_fields_def run_args_def scalar_or_null scalar_path)

lemma stmt_bind_scalar:
  assumes "scalar_fields r" and "stmt_bind 11 (run_args r pl) = Inr bs" and "k < 11"
  shows "bind_value (run_args r pl ! k) = Some (bs ! k)"
proof -
  from stmt_bind_Inr [OF assms(2)] have b: "bind_args False (run_args r pl) = Some bs"
    and l: "length bs = 11" by simp_all
  from b have "those (map bind_value (run_args r pl)) = Some bs"
    by (simp add: bind_args_scalar [OF scalar_args [OF assms(1)]])
  then have e: "map Some bs = map bind_value (run_args r pl)" by (rule those_map_Some)
  have "length (run_args r pl) = 11" by (simp add: run_args_def)
  with assms(3) have "map bind_value (run_args r pl) ! k = bind_value (run_args r pl ! k)"
    by simp
  moreover have "map Some bs ! k = Some (bs ! k)" using l assms(3) by simp
  ultimately show ?thesis using e by simp
qed

lemma text_scalar: "string_or_absent x \<Longrightarrow> scalar x"
  by (auto simp: string_or_absent_def scalar_def split: option.splits jsval.splits)

lemma text_fields_scalar: "text_fields r \<Longrightarrow> scalar_fields r"
  by (simp add: text_fields_def scalar_fields_def optional_fields_def text_scalar)

lemma text_bound:
  "string_or_absent x \<Longrightarrow> (\<exists>y. bind_value x = Some y) \<and> (\<exists>y. bind_value (Some (or_null x)) = Some y)"
  by (auto simp: string_or_absent_def or_null_def split: option.splits jsval.splits)

lemma path_bound: "\<exists>y. bind_value (Some (case pl of None \<Rightarrow> JNull | Some p \<Rightarrow> JStr p)) = Some y"
  by (simp split: option.splits)

lemma text_fields_bind:
  assumes "text_fields r"
  shows "\<exists>bs. stmt_bind 11 (run_args r pl) = Inr bs"
proof -
  have "list_all (\<lambda>x. x \<noteq> None) (map bind_value (run_args r pl))"
    using assms
    by (simp add: text_fields_def optional_fields_def run_args_def text_bound path_bound)
  from those_all_Some [OF this] obtain bs where
    t: "those (map bind_value (run_args r pl)) = Some bs" by blast
  then have b: "bind_args False (run_args r pl) = Some bs"
    by (simp add: bind_args_scalar [OF scalar_args [OF text_fields_scalar [OF assms]]])
  from those_map_Some [OF t] have "length (map Some bs) = length (map bind_value (run_args r pl))"
    by simp
  then have "length bs = 11" by (simp add: run_args_def)
  with b show ?thesis by (simp add: stmt_bind_def)
qed

lemma columns_no_title:
  assumes "body r ''title'' = None" and "stmt_bind 11 (run_args r pl) = Inr bs"
  shows "n_title (columns sq bs) = None"
proof -
  have "run_args r pl = None # tl (run_args r pl)" using assms(1) by (simp add: run_args_def)
  with assms(2) have "stmt_bind 11 (None # tl (run_args r pl)) = Inr bs" by simp
  from stmt_bind_undefined [OF this] show ?thesis by (simp add: columns_def text_affinity_def)
qed



text \<open>What the column of an optional field holds after a statement whose arguments
  were single values: the value bound for \<open>x || null\<close>, under the column's affinity.\<close>

lemma column_bound:
  assumes "scalar_fields r" and "stmt_bind 11 (run_args r pl) = Inr bs"
    and "f \<in> set optional_fields"
  shows "\<exists>b. bind_value (Some (or_null (body r f))) = Some b
     \<and> column f (new_movie i now t (columns sq bs))
         = (if f = ''year'' then integer_affinity sq b else text_val (text_affinity sq b))
     \<and> column f (set_row now t (columns sq bs) m)
         = (if f = ''year'' then integer_affinity sq b else text_val (text_affinity sq b))"
proof -
  note b = stmt_bind_scalar [OF assms(1,2)]
  from b [of 1] have 1: "bind_value (Some (or_null (body r ''year''))) = Some (bs ! 1)"
    by (simp add: run_args_def)
  from b [of 2] have 2: "bind_value (Some (or_null (body r ''poster_url''))) = Some (bs ! 2)"
    by (simp add: run_args_def)
  from b [of 4] have 4: "bind_value (Some (or_null (body r ''dop''))) = Some (bs ! 4)"
    by (simp add: run_args_def)
  from b [of 5] have 5: "bind_value (Some (or_null (body r ''bobo_crew''))) = Some (bs ! 5)"
    by (simp add: run_args_def)
  from b [of 6] have 6: "bind_value (Some (or_null (body r ''imdb_url''))) = Some (bs ! 6)"
    by (simp add: run_args_def)
  from b [of 7] have 7: "bind_value (Some (or_null (body r ''tmdb_url''))) = Some (bs ! 7)"
    by (simp add: run_args_def)
  from b [of 8] have 8: "bind_value (Some (or_null (body r ''trailer_url''))) = Some (bs ! 8)"
    by (simp add: run_args_def)
  from b [of 9] have 9: "bind_value (Some (or_null (body r ''production_company''))) = Some (bs ! 9)"
    by (simp add: run_args_def)
  from b [of 10] have 10: "bind_value (Some (or_null (body r ''synopsis''))) = Some (bs ! 10)"
    by (simp add: run_args_def)
  from assms(3) show ?thesis
    unfolding optional_fields_def
    by (elim disjE | simp add: 1 2 4 5 6 7 8 9 10 column_def new_movie_def set_row_def columns_def)+
qed

lemma or_null_absent: "x = None \<or> x = Some (JStr []) \<Longrightarrow> or_null x = JNull"
  by (auto simp: or_null_def)

lemma real_to_integer_not_text: "real_to_integer d \<noteq> SText s"
  by (auto simp: real_to_integer_def split: dbl.splits)

lemma integer_affinity_not_empty: "b \<noteq> BText [] \<Longrightarrow> integer_affinity sq b \<noteq> SText []"
  by (auto simp: integer_affinity_def real_to_integer_not_text split: bound.splits option.splits num.splits)

lemma text_affinity_not_empty: "b = BNull \<or> (\<exists>s. b = BText s \<and> s \<noteq> []) \<Longrightarrow> text_val (text_affinity sq b) \<noteq> SText []"
  by (auto simp: text_affinity_def text_val_def)

lemma stored_field:
  assumes "bind_value (Some (or_null x)) = Some b"
    and "c = (if f = ''year'' then integer_affinity sq b else text_val (text_affinity sq b))"
  shows "(x = None \<or> x = Some (JStr []) \<longrightarrow> c = SNull)
       \<and> (x = None \<or> (\<exists>s. x = Some (JStr s)) \<longrightarrow> c \<noteq> SText [])
       \<and> (\<forall>s. x = Some (JStr s) \<and> s \<noteq> [] \<and> f \<noteq> ''year'' \<longrightarrow> c = SText s)"
proof (intro conjI impI allI)
  assume "x = None \<or> x = Some (JStr [])"
  then have "or_null x = JNull" by (rule or_null_absent)
  with assms show "c = SNull" by (auto simp: integer_affinity_def text_affinity_def text_val_def)
next
  assume "x = None \<or> (\<exists>s. x = Some (JStr s))"
  then have "b = BNull \<or> (\<exists>s. b = BText s \<and> s \<noteq> [])"
    using assms(1) by (auto simp: or_null_def split: if_splits)
  then show "c \<noteq> SText []"
    using assms(2) integer_affinity_not_empty [of b sq] text_affinity_not_empty [of b sq] by auto
next
  fix s assume "x = Some (JStr s) \<and> s \<noteq> [] \<and> f \<noteq> ''year''"
  with assms show "c = SText s" by (auto simp: or_null_def text_affinity_def text_val_def)
qed

lemma upload_single_None: "poster r = None \<Longrightarrow> upload_single st r = Inr (st, None)"
  by (simp add: upload_single_def)

lemma upload_single_filtered:
  "poster r = Some u \<Longrightarrow> \<not> fileFilter u \<Longrightarrow> upload_single st r = Inl OnlyImageFiles"
  by (simp add: upload_single_def)

lemma upload_single_too_large:
  "poster r = Some u \<Longrightarrow> fileFilter u \<Longrightarrow> size_bytes u > fileSize \<Longrightarrow>
   upload_single st r = Inl LimitFileSize"
  by (simp add: upload_single_def)

lemma upload_single_stored:
  "poster r = Some u \<Longrightarrow> fileFilter u \<Longrightarrow> size_bytes u \<le> fileSize \<Longrightarrow>
   upload_single st r =
     Inr (st\<lparr>disk := (disk st)(poster_path (filename r u) \<mapsto> Regular)\<rparr>, Some (filename r u))"
  by (simp add: upload_single_def)

lemma upload_single_Inr:
  assumes "upload_single st r = Inr (st1, fl)"
  shows "movies st1 = movies st \<and> seq st1 = seq st
     \<and> (case poster r of
          None \<Rightarrow> fl = None \<and> st1 = st
        | Some u \<Rightarrow> fl = Some (filename r u) \<and> fileFilter u \<and> size_bytes u \<le> fileSize
            \<and> disk st1 = (disk st)(poster_path (filename r u) \<mapsto> Regular))"
  using assms by (auto simp: upload_single_def split: option.splits if_splits)

lemma run_insert_cases:
  "(\<exists>e. run_insert sq st now args = Inl e
      \<and> e = (case stmt_bind 11 args of
               Inl e \<Rightarrow> e
             | Inr bs \<Rightarrow> if n_title (columns sq bs) = None then NotNullTitle else DatabaseFull))
   \<or> (\<exists>bs t i. stmt_bind 11 args = Inr bs \<and> n_title (columns sq bs) = Some t
         \<and> i = largest_id st + 1
         \<and> run_insert sq st now args
             = Inr (st\<lparr>movies := movies st @ [new_movie i now t (columns sq bs)], seq := i\<rparr>, i)
         \<and> select_by_id (st\<lparr>movies := movies st @ [new_movie i now t (columns sq bs)], seq := i\<rparr>) i
             = Some (new_movie i now t (columns sq bs)))"
proof (cases "stmt_bind 11 args")
  case (Inl e)
  then show ?thesis by (simp add: run_insert_def)
next
  case (Inr bs)
  then have r: "run_insert sq st now args = insert_movie st now (columns sq bs)"
    by (simp add: run_insert_def)
  show ?thesis
  proof (cases "insert_movie st now (columns sq bs)")
    case (Inl e)
    from insert_movie_Inl [OF Inl] Inl r Inr show ?thesis by auto
  next
    case (Inr q)
    obtain st' i where q: "q = (st', i)" by (cases q)
    from insert_movie_Inr [OF Inr [unfolded q]] Inr q r \<open>stmt_bind 11 args = Inr bs\<close>
    show ?thesis by auto
  qed
qed

lemma post_movies_cases:
  assumes "post_movies sq st r = (st', resp)"
  shows "(\<exists>e. upload_single st r = Inl e \<and> st' = st \<and> resp = \<lparr>status = 500, payload = ErrorPage e\<rparr>)
    \<or> (\<exists>st1 fl e. upload_single st r = Inr (st1, fl) \<and> st' = st1
          \<and> e = (case stmt_bind 11 (run_args r (map_option poster_path fl)) of
                   Inl e \<Rightarrow> e
                 | Inr bs \<Rightarrow> if n_title (columns sq bs) = None then NotNullTitle else DatabaseFull)
          \<and> resp = \<lparr>status = 500, payload = JsonError e\<rparr>)
    \<or> (\<exists>st1 fl bs t i. upload_single st r = Inr (st1, fl)
          \<and> stmt_bind 11 (run_args r (map_option poster_path fl)) = Inr bs
          \<and> n_title (columns sq bs) = Some t
          \<and> i = largest_id st1 + 1
          \<and> st' = st1\<lparr>movies := movies st1 @ [new_movie i (current_timestamp r) t (columns sq bs)],
                seq := i\<rparr>
          \<and> select_by_id st' i = Some (new_movie i (current_timestamp r) t (columns sq bs))
          \<and> resp = \<lparr>status = 201, payload = json_row (select_by_id st' (double_of_int i))\<rparr>)"
proof (cases "upload_single st r")
  case (Inl e)
  with assms show ?thesis by (simp add: post_movies_Inl)
next
  case (Inr p)
  obtain st1 fl where p: "p = (st1, fl)" by (cases p)
  note up = Inr [unfolded p]
  let ?args = "run_args r (map_option poster_path fl)"
  from run_insert_cases [of sq st1 "current_timestamp r" ?args]
  show ?thesis
  proof (elim disjE exE conjE)
    fix e assume i: "run_insert sq st1 (current_timestamp r) ?args = Inl e"
      and e: "e = (case stmt_bind 11 ?args of
               Inl e \<Rightarrow> e
             | Inr bs \<Rightarrow> if n_title (columns sq bs) = None then NotNullTitle else DatabaseFull)"
    have "post_movies sq st r = (st1, \<lparr>status = 500, payload = JsonError e\<rparr>)"
      by (simp add: post_movies_Inr [OF up] post_handler_Inl [OF i])
    with assms have "st' = st1" and "resp = \<lparr>status = 500, payload = JsonError e\<rparr>"
      by simp_all
    with up e show ?thesis by blast
  next
    fix bs t i
    let ?st2 = "st1\<lparr>movies := movies st1 @ [new_movie i (current_timestamp r) t (columns sq bs)], seq := i\<rparr>"
    assume b: "stmt_bind 11 ?args = Inr bs" and t: "n_title (columns sq bs) = Some t"
      and i: "i = largest_id st1 + 1"
      and ins: "run_insert sq st1 (current_timestamp r) ?args = Inr (?st2, i)"
      and sel: "select_by_id ?st2 i = Some (new_movie i (current_timestamp r) t (columns sq bs))"
    have "post_movies sq st r
        = (?st2, \<lparr>status = 201, payload = json_row (select_by_id ?st2 (double_of_int i))\<rparr>)"
      by (simp add: post_movies_Inr [OF up] post_handler_Inr [OF ins])
    with assms have "(st', resp)
        = (?st2, \<lparr>status = 201, payload = json_row (select_by_id ?st2 (double_of_int i))\<rparr>)"
      by (simp only:)
    then have s: "st' = ?st2"
      and "resp = \<lparr>status = 201, payload = json_row (select_by_id ?st2 (double_of_int i))\<rparr>"
      by (simp_all only: prod.inject)
    then have "resp = \<lparr>status = 201, payload = json_row (select_by_id st' (double_of_int i))\<rparr>"
      by (simp only:)
    with s up b t i sel show ?thesis by blast
  qed
qed

lemma run_update_cases:
  assumes "select_by_id st i = Some m"
  shows "(\<exists>e. run_update sq st now args i = Inl e
      \<and> e = (case stmt_bind 11 args of Inl e \<Rightarrow> e | Inr bs \<Rightarrow> NotNullTitle)
      \<and> (\<forall>bs. stmt_bind 11 args = Inr bs \<longrightarrow> n_title (columns sq bs) = None))
   \<or> (\<exists>bs t st3. stmt_bind 11 args = Inr bs \<and> n_title (columns sq bs) = Some t
         \<and> run_update sq st now args i = Inr st3
         \<and> select_by_id st3 i = Some (set_row now t (columns sq bs) m)
         \<and> seq st3 = seq st \<and> disk st3 = disk st)"
proof (cases "stmt_bind 11 args")
  case (Inl e)
  then show ?thesis by (simp add: run_update_def)
next
  case (Inr bs)
  then have r: "run_update sq st now args i = update_movie st now (columns sq bs) i"
    by (simp add: run_update_def)
  show ?thesis
  proof (cases "n_title (columns sq bs)")
    case None
    from update_movie_None [OF None assms] r Inr None show ?thesis by simp
  next
    case (Some t)
    from update_movie_Some [OF Some assms, of now] r Inr Some show ?thesis by auto
  qed
qed

lemma put_trace_cases:
  assumes "select_by_id st i = Some m" and "put_trace sq st i r = (tr, resp)"
  shows "(\<exists>e. upload_single st r = Inl e \<and> tr = [st] \<and> resp = \<lparr>status = 500, payload = ErrorPage e\<rparr>)
    \<or> (\<exists>st1 fl e. upload_single st r = Inr (st1, fl) \<and> removal st1 m fl = Inl e \<and> tr = [st, st1]
          \<and> resp = \<lparr>status = 500, payload = JsonError e\<rparr>)
    \<or> (\<exists>st1 fl st2 e. upload_single st r = Inr (st1, fl) \<and> removal st1 m fl = Inr st2
          \<and> e = (case stmt_bind 11 (run_args r (kept_or_new m fl)) of
                   Inl e \<Rightarrow> e
                 | Inr bs \<Rightarrow> NotNullTitle)
          \<and> tr = [st, st1, st2]
          \<and> resp = \<lparr>status = 500, payload = JsonError e\<rparr>)
    \<or> (\<exists>st1 fl st2 st3 bs t. upload_single st r = Inr (st1, fl) \<and> removal st1 m fl = Inr st2
          \<and> stmt_bind 11 (run_args r (kept_or_new m fl)) = Inr bs
          \<and> n_title (columns sq bs) = Some t
          \<and> select_by_id st3 i = Some (set_row (current_timestamp r) t (columns sq bs) m)
          \<and> seq st3 = seq st2 \<and> disk st3 = disk st2
          \<and> tr = [st, st1, st2, st3]
          \<and> resp = \<lparr>status = 200, payload =
                JsonMovie (to_json (set_row (current_timestamp r) t (columns sq bs) m))\<rparr>)"
proof (cases "upload_single st r")
  case (Inl e)
  with assms show ?thesis by (simp add: put_trace_Inl)
next
  case (Inr p)
  obtain st1 fl where p: "p = (st1, fl)" by (cases p)
  note up = Inr [unfolded p]
  from upload_single_Inr [OF up] have "movies st1 = movies st" by simp
  then have sel1: "select_by_id st1 i = Some m" using assms(1) by (simp add: select_by_id_def)
  let ?args = "run_args r (kept_or_new m fl)"
  show ?thesis
  proof (cases "removal st1 m fl")
    case (Inl e)
    from put_trace_Inr [OF up put_handler_removal_fails [OF sel1 Inl]] assms(2) up Inl
    show ?thesis by simp
  next
    case (Inr st2)
    note rem = Inr
    have "movies st2 = movies st1"
      using rem by (auto simp: removal_def remove_poster_def unlinkSync_def
          split: if_splits option.splits fentry.splits)
    then have sel2: "select_by_id st2 i = Some m" using sel1 by (simp add: select_by_id_def)
    from run_update_cases [OF sel2, of sq "current_timestamp r" ?args]
    show ?thesis
    proof (elim disjE exE conjE)
      fix e assume u: "run_update sq st2 (current_timestamp r) ?args i = Inl e"
        and e: "e = (case stmt_bind 11 ?args of Inl e \<Rightarrow> e | Inr bs \<Rightarrow> NotNullTitle)"
      from put_trace_Inr [OF up put_handler_update_fails [OF sel1 rem u]] assms(2)
      have "tr = [st, st1, st2]" and "resp = \<lparr>status = 500, payload = JsonError e\<rparr>"
        by simp_all
      with up rem e show ?thesis by blast
    next
      fix bs t st3
      assume b: "stmt_bind 11 ?args = Inr bs" and t: "n_title (columns sq bs) = Some t"
        and u: "run_update sq st2 (current_timestamp r) ?args i = Inr st3"
        and s3: "select_by_id st3 i = Some (set_row (current_timestamp r) t (columns sq bs) m)"
        and f3: "seq st3 = seq st2" "disk st3 = disk st2"
      from put_trace_Inr [OF up put_handler_ok [OF sel1 rem u]] assms(2)
      have "tr = [st, st1, st2, st3]"
        and "resp = \<lparr>status = 200, payload =
                JsonMovie (to_json (set_row (current_timestamp r) t (columns sq bs) m))\<rparr>"
        by (simp_all add: s3 json_row_def)
      with up rem b t s3 f3 show ?thesis by blast
    qed
  qed
qed

lemma put_trace_missing:
  assumes "select_by_id st i = None"
  shows "status (snd (put_trace sq st i r)) \<noteq> 200"
proof (cases "upload_single st r")
  case (Inl e)
  then show ?thesis by (simp add: put_trace_Inl)
next
  case (Inr p)
  obtain st1 fl where p: "p = (st1, fl)" by (cases p)
  note up = Inr [unfolded p]
  from upload_single_Inr [OF up] have "movies st1 = movies st" by simp
  then have "select_by_id st1 i = None" using assms by (simp add: select_by_id_def)
  from put_trace_Inr [OF up put_handler_404 [OF this]] show ?thesis by simp
qed

lemma put_movies_trace: "put_trace sq st i r = (tr, resp) \<Longrightarrow> put_movies sq st i r = (last tr, resp)"
  by (simp add: put_movies_def)

lemma put_movies_status: "status (snd (put_movies sq st i r)) = status (snd (put_trace sq st i r))"
  by (simp add: put_movies_def split: prod.splits)

text \<open>
  C10 (as the code has it). For a request whose ten fields are single values (none is
  an array or an object): a create that answers 201 has added one row, an update
  that answers 200 answers with the row it stored, and in that row each of the nine
  optional fields whose submitted value is absent or the empty string is NULL, and
  each optional field that is absent or was submitted as a string is not the empty
  string. The create answers with the row it added when the row's id is a double.
\<close>

theorem optional_fields_null:
  assumes "f \<in> set optional_fields" and "scalar_fields r"
  shows "(status (snd (post_movies sq st r)) = 201 \<longrightarrow>
           (\<exists>m. movies (fst (post_movies sq st r)) = movies st @ [m]
              \<and> select_by_id (fst (post_movies sq st r)) (movie_id m) = Some m
              \<and> (\<bar>movie_id m\<bar> \<le> 2 ^ 53 \<longrightarrow>
                   payload (snd (post_movies sq st r)) = JsonMovie (to_json m))
              \<and> (body r f = None \<or> body r f = Some (JStr []) \<longrightarrow> column f m = SNull)
              \<and> (body r f = None \<or> (\<exists>s. body r f = Some (JStr s)) \<longrightarrow> column f m \<noteq> SText [])))
       \<and> (status (snd (put_movies sq st i r)) = 200 \<longrightarrow>
           (\<exists>m. payload (snd (put_movies sq st i r)) = JsonMovie (to_json m)
              \<and> select_by_id (fst (put_movies sq st i r)) i = Some m
              \<and> (body r f = None \<or> body r f = Some (JStr []) \<longrightarrow> column f m = SNull)
              \<and> (body r f = None \<or> (\<exists>s. body r f = Some (JStr s)) \<longrightarrow> column f m \<noteq> SText [])))"
proof (intro conjI impI)
  assume s: "status (snd (post_movies sq st r)) = 201"
  obtain st' resp where p: "post_movies sq st r = (st', resp)" by (cases "post_movies sq st r")
  from post_movies_cases [OF p] s p obtain st1 fl bs t j where
    up: "upload_single st r = Inr (st1, fl)"
    and b: "stmt_bind 11 (run_args r (map_option poster_path fl)) = Inr bs"
    and st': "st' = st1\<lparr>movies := movies st1 @ [new_movie j (current_timestamp r) t (columns sq bs)],
                seq := j\<rparr>"
    and sel: "select_by_id st' j = Some (new_movie j (current_timestamp r) t (columns sq bs))"
    and resp: "resp = \<lparr>status = 201, payload = json_row (select_by_id st' (double_of_int j))\<rparr>"
    by auto
  let ?m = "new_movie j (current_timestamp r) t (columns sq bs)"
  from upload_single_Inr [OF up] have "movies st1 = movies st" by simp
  with st' have 1: "movies (fst (post_movies sq st r)) = movies st @ [?m]" using p by simp
  have 2: "select_by_id (fst (post_movies sq st r)) (movie_id ?m) = Some ?m" using p sel by simp
  have 3: "\<bar>movie_id ?m\<bar> \<le> 2 ^ 53 \<longrightarrow> payload (snd (post_movies sq st r)) = JsonMovie (to_json ?m)"
    using p resp sel by (simp add: double_of_int_exact json_row_def)
  from column_bound [OF assms(2) b assms(1), where i = j and now = "current_timestamp r" and t = t and sq = sq] obtain v where
    v: "bind_value (Some (or_null (body r f))) = Some v"
    and c: "column f ?m = (if f = ''year'' then integer_affinity sq v else text_val (text_affinity sq v))"
    by blast
  note sf = stored_field [OF v c]
  from sf have 4: "body r f = None \<or> body r f = Some (JStr []) \<longrightarrow> column f ?m = SNull"
    by (rule conjunct1)
  from sf have 5: "body r f = None \<or> (\<exists>s. body r f = Some (JStr s)) \<longrightarrow> column f ?m \<noteq> SText []"
    by (rule conjunct2 [THEN conjunct1])
  show "\<exists>m. movies (fst (post_movies sq st r)) = movies st @ [m]
              \<and> select_by_id (fst (post_movies sq st r)) (movie_id m) = Some m
              \<and> (\<bar>movie_id m\<bar> \<le> 2 ^ 53 \<longrightarrow>
                   payload (snd (post_movies sq st r)) = JsonMovie (to_json m))
              \<and> (body r f = None \<or> body r f = Some (JStr []) \<longrightarrow> column f m = SNull)
              \<and> (body r f = None \<or> (\<exists>s. body r f = Some (JStr s)) \<longrightarrow> column f m \<noteq> SText [])"
    by (rule exI [of _ ?m], intro conjI; fact)
next
  assume s: "status (snd (put_movies sq st i r)) = 200"
  then have s': "status (snd (put_trace sq st i r)) = 200" by (simp add: put_movies_status)
  with put_trace_missing [of st i sq r] obtain m where m: "select_by_id st i = Some m"
    by (cases "select_by_id st i") auto
  obtain tr resp where p: "put_trace sq st i r = (tr, resp)" by (cases "put_trace sq st i r")
  from put_trace_cases [OF m p] s' p obtain st1 fl st2 st3 bs t where
    b: "stmt_bind 11 (run_args r (kept_or_new m fl)) = Inr bs"
    and sel: "select_by_id st3 i = Some (set_row (current_timestamp r) t (columns sq bs) m)"
    and tr: "tr = [st, st1, st2, st3]"
    and resp: "resp = \<lparr>status = 200, payload =
                JsonMovie (to_json (set_row (current_timestamp r) t (columns sq bs) m))\<rparr>"
    by auto
  let ?m = "set_row (current_timestamp r) t (columns sq bs) m"
  have pm: "put_movies sq st i r = (st3, resp)" using put_movies_trace [OF p] tr by simp
  have 1: "payload (snd (put_movies sq st i r)) = JsonMovie (to_json ?m)" using pm resp by simp
  have 2: "select_by_id (fst (put_movies sq st i r)) i = Some ?m" using pm sel by simp
  from column_bound [OF assms(2) b assms(1), where now = "current_timestamp r" and t = t and sq = sq and m = m] obtain v where
    v: "bind_value (Some (or_null (body r f))) = Some v"
    and c: "column f ?m = (if f = ''year'' then integer_affinity sq v else text_val (text_affinity sq v))"
    by blast
  note sf = stored_field [OF v c]
  from sf have 4: "body r f = None \<or> body r f = Some (JStr []) \<longrightarrow> column f ?m = SNull"
    by (rule conjunct1)
  from sf have 5: "body r f = None \<or> (\<exists>s. body r f = Some (JStr s)) \<longrightarrow> column f ?m \<noteq> SText []"
    by (rule conjunct2 [THEN conjunct1])
  show "\<exists>m. payload (snd (put_movies sq st i r)) = JsonMovie (to_json m)
              \<and> select_by_id (fst (put_movies sq st i r)) i = Some m
              \<and> (body r f = None \<or> body r f = Some (JStr []) \<longrightarrow> column f m = SNull)
              \<and> (body r f = None \<or> (\<exists>s. body r f = Some (JStr s)) \<longrightarrow> column f m \<noteq> SText [])"
    by (rule exI [of _ ?m], intro conjI; fact)
qed

lemma empty_dop_status:
  "status (snd (post_movies sq empty_db (form [(''title'', ''A''), (''dop'', [])]))) = 201"
  by code_simp

lemma empty_dop_scalar: "scalar_fields (form [(''title'', ''A''), (''dop'', [])])"
  by code_simp

lemma one_movie_row: "map_option dop (select_by_id (one_movie sq) 1) = Some (Some ''X'')"
  by code_simp

lemma one_movie_retitled:
  "status (snd (put_movies sq (one_movie sq) 1 (form [(''title'', ''B'')]))) = 200"
  by code_simp

lemma retitled_scalar: "scalar_fields (form [(''title'', ''B'')])"
  by code_simp

theorem optional_fields_null_witness:
  "\<forall>sq. ''dop'' \<in> set optional_fields
     \<and> scalar_fields (form [(''title'', ''A''), (''dop'', [])])
     \<and> body (form [(''title'', ''A''), (''dop'', [])]) ''dop'' = Some (JStr [])
     \<and> status (snd (post_movies sq empty_db (form [(''title'', ''A''), (''dop'', [])]))) = 201
     \<and> (\<exists>m. movies (fst (post_movies sq empty_db (form [(''title'', ''A''), (''dop'', [])])))
              = movies empty_db @ [m]
            \<and> column ''dop'' m = SNull)
     \<and> map_option dop (select_by_id (one_movie sq) 1) = Some (Some ''X'')
     \<and> scalar_fields (form [(''title'', ''B'')])
     \<and> body (form [(''title'', ''B'')]) ''dop'' = None
     \<and> status (snd (put_movies sq (one_movie sq) 1 (form [(''title'', ''B'')]))) = 200
     \<and> (\<exists>m. select_by_id (fst (put_movies sq (one_movie sq) 1 (form [(''title'', ''B'')]))) 1 = Some m
            \<and> column ''dop'' m = SNull)"
  (is "\<forall>sq. ?P sq")
proof (rule allI)
  fix sq
  have f: "''dop'' \<in> set optional_fields" by (simp add: optional_fields_def)
  have b: "body (form [(''title'', ''A''), (''dop'', [])]) ''dop'' = Some (JStr [])"
    by (simp add: form_def json_def)
  have b': "body (form [(''title'', ''B'')]) ''dop'' = None"
    by (simp add: form_def json_def)
  from optional_fields_null [OF f empty_dop_scalar, where sq = sq and st = empty_db]
    empty_dop_status [of sq] b
  have 1: "\<exists>m. movies (fst (post_movies sq empty_db (form [(''title'', ''A''), (''dop'', [])])))
            = movies empty_db @ [m]
          \<and> column ''dop'' m = SNull"
    by blast
  from optional_fields_null [OF f retitled_scalar, where sq = sq and st = "one_movie sq" and i = 1]
    one_movie_retitled [of sq] b'
  have 2: "\<exists>m. select_by_id (fst (put_movies sq (one_movie sq) 1 (form [(''title'', ''B'')]))) 1 = Some m
          \<and> column ''dop'' m = SNull"
    by blast
  from f empty_dop_scalar b empty_dop_status [of sq] 1 one_movie_row [of sq] retitled_scalar b' one_movie_retitled [of sq] 2
  show "?P sq" by blast
qed

text \<open>
  C10 as stated fails for a field that is an array, which better-sqlite3 spreads over
  the parameters of the statement. A create with \<open>dop\<close> sent as the array of the
  empty string (\<open>dop[]=\<close> in a form, \<open>"dop": [""]\<close> in JSON) stores the empty string
  in \<open>dop\<close>. A create whose \<open>year\<close> is the empty array and whose \<open>bobo_crew\<close> is an
  array of two strings sends no \<open>dop\<close> and stores the first of the two strings in
  \<open>dop\<close>.
\<close>

theorem array_field_stored:
  "\<forall>sq. body (json [(''title'', JStr ''A''), (''dop'', JArr [JStr []])]) ''dop'' = Some (JArr [JStr []])
     \<and> status (snd (post_movies sq empty_db
           (json [(''title'', JStr ''A''), (''dop'', JArr [JStr []])]))) = 201
     \<and> map dop (movies (fst (post_movies sq empty_db
           (json [(''title'', JStr ''A''), (''dop'', JArr [JStr []])])))) = [Some []]
     \<and> body (json [(''title'', JStr ''A''), (''year'', JArr []),
                    (''bobo_crew'', JArr [JStr ''p'', JStr ''q''])]) ''dop'' = None
     \<and> status (snd (post_movies sq empty_db
           (json [(''title'', JStr ''A''), (''year'', JArr []),
                  (''bobo_crew'', JArr [JStr ''p'', JStr ''q''])]))) = 201
     \<and> map dop (movies (fst (post_movies sq empty_db
           (json [(''title'', JStr ''A''), (''year'', JArr []),
                  (''bobo_crew'', JArr [JStr ''p'', JStr ''q''])])))) = [Some ''p'']"
  (is "\<forall>sq. ?P sq")
proof (rule allI)
  fix sq
  show "?P sq"
    by code_simp
qed

subsection \<open>Rejected requests\<close>

text \<open>
  C5 (as the code has it). A create without a title answers 500 and inserts no row.
  There is no check before the insert: an upload that multer refuses ends the
  request with Express's error page; otherwise the uploaded file is stored, and the
  handler's catch-all answers with the message of what \<open>stmt.run\<close> threw: the
  binder's refusal of the arguments, or else the failure of \<open>title TEXT NOT NULL\<close>,
  which it is whenever the fields that were sent are strings.
\<close>

theorem create_without_title:
  assumes "body r ''title'' = None"
  shows "status (snd (post_movies sq st r)) = 500
       \<and> movies (fst (post_movies sq st r)) = movies st
       \<and> seq (fst (post_movies sq st r)) = seq st
       \<and> (case upload_single st r of
            Inl e \<Rightarrow> payload (snd (post_movies sq st r)) = ErrorPage e \<and> fst (post_movies sq st r) = st
          | Inr (st1, fl) \<Rightarrow>
              payload (snd (post_movies sq st r))
                = JsonError (case stmt_bind 11 (run_args r (map_option poster_path fl)) of
                               Inl e \<Rightarrow> e
                             | Inr bs \<Rightarrow> NotNullTitle)
              \<and> (text_fields r \<longrightarrow> payload (snd (post_movies sq st r)) = JsonError NotNullTitle)
              \<and> fst (post_movies sq st r) = st1)"
proof (cases "upload_single st r")
  case (Inl e)
  then show ?thesis by (simp add: post_movies_Inl)
next
  case (Inr p)
  obtain st1 fl where p: "p = (st1, fl)" by (cases p)
  note up = Inr [unfolded p]
  let ?args = "run_args r (map_option poster_path fl)"
  let ?e = "case stmt_bind 11 ?args of Inl e \<Rightarrow> e | Inr bs \<Rightarrow> NotNullTitle"
  have n: "n_title (columns sq bs) = None" if "stmt_bind 11 ?args = Inr bs" for bs
    using columns_no_title [OF assms that] .
  have "run_insert sq st1 (current_timestamp r) ?args = Inl ?e"
    using run_insert_cases [of sq st1 "current_timestamp r" ?args] n
    by (cases "stmt_bind 11 ?args") auto
  from post_handler_Inl [OF this]
  have pm: "post_movies sq st r = (st1, \<lparr>status = 500, payload = JsonError ?e\<rparr>)"
    by (simp add: post_movies_Inr [OF up])
  have "?e = NotNullTitle" if "text_fields r"
    using text_fields_bind [OF that, of "map_option poster_path fl"] by auto
  with pm upload_single_Inr [OF up] up show ?thesis by simp
qed

lemma year_only_text: "text_fields (with_file (form [(''year'', ''2020'')]) png 1 2)"
  by code_simp

lemma year_only_upload: "\<not> isl (upload_single empty_db (with_file (form [(''year'', ''2020'')]) png 1 2))"
  by code_simp

theorem create_without_title_witness:
  "\<forall>sq. body (with_file (form [(''year'', ''2020'')]) png 1 2) ''title'' = None
     \<and> text_fields (with_file (form [(''year'', ''2020'')]) png 1 2)
     \<and> status (snd (post_movies sq empty_db (with_file (form [(''year'', ''2020'')]) png 1 2))) = 500
     \<and> payload (snd (post_movies sq empty_db (with_file (form [(''year'', ''2020'')]) png 1 2)))
         = JsonError NotNullTitle
     \<and> movies (fst (post_movies sq empty_db (with_file (form [(''year'', ''2020'')]) png 1 2))) = []"
  (is "\<forall>sq. ?P sq")
proof (rule allI)
  fix sq
  let ?r = "with_file (form [(''year'', ''2020'')]) png 1 2"
  have b: "body ?r ''title'' = None"
    by (simp add: with_file_def form_def json_def)
  have e: "movies empty_db = []" by (simp add: empty_db_def)
  from year_only_upload obtain st1 fl where u: "upload_single empty_db ?r = Inr (st1, fl)"
    by (cases "upload_single empty_db ?r") auto
  from create_without_title [OF b, of sq empty_db]
  have "text_fields ?r \<longrightarrow> payload (snd (post_movies sq empty_db ?r)) = JsonError NotNullTitle"
    unfolding u sum.case prod.case by (elim conjE)
  with year_only_text
  have "payload (snd (post_movies sq empty_db ?r)) = JsonError NotNullTitle"
    by (rule rev_mp)
  with create_without_title [OF b, of sq empty_db] b e year_only_text show "?P sq"
    by (simp only:)
qed

text \<open>
  C5 as stated fails: the answer to a create without a title is 500, not a 4xx, and
  an uploaded file is on disk although the create failed.
\<close>

theorem create_without_title_status:
  "\<forall>sq. body (form [(''year'', ''2020'')]) ''title'' = None
     \<and> status (snd (post_movies sq empty_db (form [(''year'', ''2020'')]))) = 500
     \<and> payload (snd (post_movies sq empty_db (form [(''year'', ''2020'')]))) = JsonError NotNullTitle
     \<and> disk (fst (post_movies sq empty_db (with_file (form [(''year'', ''2020'')]) png 1 2)))
           ''/uploads/posters/1-2.png'' = Some Regular"
  (is "\<forall>sq. ?P sq")
proof (rule allI)
  fix sq
  show "?P sq"
    by code_simp
qed

text \<open>
  C7 (as the code has it). A request whose file is longer than 5 MB is refused by
  multer: the handler does not run, so the store is left as it was (no row, no file),
  and the answer is Express's error page with status 500; this holds for create and
  for update.
\<close>

theorem too_large_rejected:
  assumes "poster r = Some u" and "size_bytes u > 5 * 1024 * 1024"
  shows "post_movies sq st r =
           (st, \<lparr>status = 500,
                 payload = ErrorPage (if fileFilter u then LimitFileSize else OnlyImageFiles)\<rparr>)
       \<and> put_movies sq st i r =
           (st, \<lparr>status = 500,
                 payload = ErrorPage (if fileFilter u then LimitFileSize else OnlyImageFiles)\<rparr>)"
proof -
  have "upload_single st r = Inl (if fileFilter u then LimitFileSize else OnlyImageFiles)"
    using assms by (simp add: upload_single_def fileSize_def)
  then show ?thesis by (simp add: post_movies_Inl put_movies_def put_trace_Inl)
qed

lemma too_large_filter: "fileFilter too_large"
  by code_simp

theorem too_large_rejected_witness:
  "\<forall>sq. poster (with_file (form [(''title'', ''A'')]) too_large 1 2) = Some too_large
     \<and> size_bytes too_large > 5 * 1024 * 1024
     \<and> fileFilter too_large
     \<and> snd (post_movies sq empty_db (with_file (form [(''title'', ''A'')]) too_large 1 2))
         = \<lparr>status = 500, payload = ErrorPage LimitFileSize\<rparr>"
  (is "\<forall>sq. ?P sq")
proof (rule allI)
  fix sq
  have p: "poster (with_file (form [(''title'', ''A'')]) too_large 1 2) = Some too_large"
    by (simp add: with_file_def)
  have s: "size_bytes too_large > 5 * 1024 * 1024" by (simp add: too_large_def)
  from too_large_rejected [OF p s, of sq empty_db] p s too_large_filter show "?P sq" by simp
qed

text \<open>
  C7 as stated fails: the answer to a file of 5 MB and one byte is 500, the status
  of a fault, and not a validation failure of the 4xx class.
\<close>

theorem too_large_status:
  "\<forall>sq. size_bytes too_large = 5 * 1024 * 1024 + 1
     \<and> status (snd (post_movies sq empty_db (with_file (form [(''title'', ''A'')]) too_large 1 2))) = 500
     \<and> status (snd (put_movies sq (one_movie sq) 1 (with_file (form [(''title'', ''A'')]) too_large 3 4))) = 500"
  (is "\<forall>sq. ?P sq")
proof (rule allI)
  fix sq
  show "?P sq"
    by code_simp
qed

subsection \<open>Update, delete and the poster file\<close>


























text \<open>
  C6. The filter tests the patterns anywhere in the extension: a file named
  \<open>poster.pngx\<close> sent as \<open>image/png\<close> is accepted, stored under the extension
  \<open>.pngx\<close>, and its row is created.
\<close>

theorem pngx_accepted:
  "\<forall>sq. extname (originalname pngx) = ''.pngx''
     \<and> fileFilter pngx
     \<and> status (snd (post_movies sq empty_db (with_file (form [(''title'', ''A'')]) pngx 1 2))) = 201
     \<and> map poster_local (movies (fst (post_movies sq empty_db (with_file (form [(''title'', ''A'')]) pngx 1 2))))
         = [Some ''/uploads/posters/1-2.pngx'']
     \<and> disk (fst (post_movies sq empty_db (with_file (form [(''title'', ''A'')]) pngx 1 2)))
           ''/uploads/posters/1-2.pngx'' = Some Regular"
  (is "\<forall>sq. ?P sq")
proof (rule allI)
  fix sq
  show "?P sq"
    by code_simp
qed

end
